theory Spec2Isabelle
  imports Complex_Main "HOL-Library.Word" "HOL-Library.Multiset"
begin

section \<open>Numbers and randomness\<close>

text \<open>
  The program is TypeScript. A \<open>number\<close> that the program computes with (threshold,
  dot size, coordinates, luminance, the interaction scalars) is a \<open>real\<close>: exact
  arithmetic, without the rounding and without the NaN and infinities of doubles. A
  \<open>number\<close> that counts or strides over an array is an \<open>int\<close>: the grid spacing, which
  the integer slider sets and which steps through the indices of the pixel buffer, and
  the point cap \<open>maxPoints\<close>, which is the end of a \<open>slice\<close>. Array indices and lengths
  are \<open>nat\<close>, and a channel of the pixel buffer (a clamped byte array) is an 8-bit word.

  \<open>Math.random()\<close> is a stream of draws \<open>rnd 0, rnd 1, ...\<close> and a position in it:
  every function that draws takes the position and returns the next one. The
  contract of \<open>Math.random\<close>, \<open>0 \<le> rnd k < 1\<close>, is \<open>unitDraws\<close>.
\<close>

type_synonym rng = "nat \<Rightarrow> real"

definition unitDraws :: "rng \<Rightarrow> bool" where
  "unitDraws rnd = (\<forall>k. 0 \<le> rnd k \<and> rnd k < 1)"

text \<open>The module's own \<open>lerp\<close> (lines 13-15).\<close>

definition lerp :: "real \<Rightarrow> real \<Rightarrow> real \<Rightarrow> real" where
  "lerp start stop amt = amt * (stop - start) + start"

text \<open>\<open>mapRange\<close> (lines 615-617).\<close>

definition mapRange :: "real \<Rightarrow> real \<Rightarrow> real \<Rightarrow> real \<Rightarrow> real \<Rightarrow> real" where
  "mapRange v i1 i2 o1 o2 = o1 + (o2 - o1) * ((v - i1) / (i2 - i1))"

section \<open>Data model (types.ts and the state object)\<close>

datatype Shape = Dot | Square | Line

record SoilSettings =
  threshold :: real
  dotSize :: real
  spacing :: int
  shape :: Shape
  maxPoints :: int

text \<open>The fields \<open>x, y, z, b, n\<close> of a soil point, prefixed.\<close>

record SoilPoint =
  pt_x :: real
  pt_y :: real
  pt_z :: real
  pt_b :: real
  pt_n :: real

record SoilBehavior =
  densityFactor :: real
  heightFactor :: real
  thicknessFactor :: real
  growthSpeed :: real
  avgBrightness :: real

datatype SpeciesType = torus | mobius | knot | hopf

text \<open>The fields \<open>strength, heightFactor, thicknessFactor\<close> of the creature parameters.\<close>

record CreatureParams =
  cp_strength :: real
  cp_heightFactor :: real
  cp_thicknessFactor :: real

text \<open>A preview dot \<open>{x, y, size}\<close>.\<close>

record PreviewDot =
  dot_x :: real
  dot_y :: real
  dot_size :: real

text \<open>
  The offscreen graphics \<open>sourceG\<close>: its width, its height and its pixel buffer after
  \<open>loadPixels()\<close>, four bytes a pixel.
\<close>

record Graphics =
  width :: nat
  height :: nat
  pixels :: "8 word list"

section \<open>Brightness of a pixel\<close>

text \<open>
  Reading the buffer beyond its end gives \<open>undefined\<close>, and the luminance computed
  from it is NaN, which no comparison accepts: \<open>None\<close> here.
\<close>

definition pixelAt :: "8 word list \<Rightarrow> nat \<Rightarrow> real option" where
  "pixelAt px i = (if i < length px then Some (real (unat (px ! i))) else None)"

definition brightAt :: "Graphics \<Rightarrow> nat \<Rightarrow> nat \<Rightarrow> real option" where
  "brightAt sg x y =
     (let idx = (x + y * width sg) * 4 in
      case pixelAt (pixels sg) idx of
        None \<Rightarrow> None
      | Some r \<Rightarrow>
         (case pixelAt (pixels sg) (idx + 1) of
            None \<Rightarrow> None
          | Some g \<Rightarrow>
             (case pixelAt (pixels sg) (idx + 2) of
                None \<Rightarrow> None
              | Some b \<Rightarrow> Some (r * 0.299 + g * 0.587 + b * 0.114))))"

section \<open>The grid scan\<close>

text \<open>
  \<open>for (let i = start; i < bound; i += step) body\<close> with
  \<open>step = Math.max(1, settings.spacing)\<close>, the loop of both scans.
\<close>

definition stepOf :: "int \<Rightarrow> nat" where
  "stepOf sp = nat (max 1 sp)"

function forStep :: "nat \<Rightarrow> nat \<Rightarrow> int \<Rightarrow> (nat \<Rightarrow> 's \<Rightarrow> 's) \<Rightarrow> 's \<Rightarrow> 's" where
  "forStep i bound sp body s =
     (if i < bound then forStep (i + stepOf sp) bound sp body (body i s) else s)"
  by pat_completeness auto
termination
  by (relation "measure (\<lambda>(i, bound, sp, body, s). bound - i)") (auto simp: stepOf_def)

declare forStep.simps [simp del]

text \<open>\<open>range || 1\<close>: the range, and 1 when the range is 0.\<close>

definition orOne :: "real \<Rightarrow> real" where
  "orOne r = (if r = 0 then 1 else r)"

subsection \<open>Preview (recomputePreviewDots, lines 243-280)\<close>

definition previewBody :: "Graphics \<Rightarrow> SoilSettings \<Rightarrow> nat \<Rightarrow> nat \<Rightarrow> PreviewDot list \<Rightarrow> PreviewDot list" where
  "previewBody sg st y x dots =
     (case brightAt sg x y of
        None \<Rightarrow> dots
      | Some bright \<Rightarrow>
          if bright > threshold st then
            (let range = 255 - threshold st;
                 norm = (bright - threshold st) / orOne range;
                 radius = norm * dotSize st
             in if radius \<le> 0.3 then dots
                else dots @ [\<lparr> dot_x = real x - real (width sg) / 2,
                               dot_y = real y - real (height sg) / 2,
                               dot_size = radius \<rparr>])
          else dots)"

definition previewScan :: "Graphics \<Rightarrow> SoilSettings \<Rightarrow> PreviewDot list" where
  "previewScan sg st =
     forStep 0 (height sg) (spacing st)
       (\<lambda>y. forStep 0 (width sg) (spacing st) (previewBody sg st y)) []"

text \<open>
  The result is the new \<open>state.previewDots\<close>; \<open>old\<close> is the list before the call,
  kept when there is no source graphics.
\<close>

definition recomputePreviewDots :: "Graphics option \<Rightarrow> SoilSettings \<Rightarrow> PreviewDot list \<Rightarrow> PreviewDot list" where
  "recomputePreviewDots sourceG st old =
     (case sourceG of
        None \<Rightarrow> old
      | Some sg \<Rightarrow>
          if length (pixels sg) = 0 then []
          else (let dots = previewScan sg st
                in if length dots > 4000 then take 4000 dots else dots))"

subsection \<open>Final generation: the scan (generateDigitalSoil, lines 512-536)\<close>

text \<open>
  The loop state is the point list, \<open>brightnessSum\<close> and the position in the random
  stream (one draw for the height noise of each pushed point).
\<close>

definition scanBody :: "rng \<Rightarrow> Graphics \<Rightarrow> real \<Rightarrow> nat \<Rightarrow> nat \<Rightarrow> SoilPoint list \<times> real \<times> nat \<Rightarrow> SoilPoint list \<times> real \<times> nat" where
  "scanBody rnd sg thr y x acc =
     (case acc of (pts, brightnessSum, k) \<Rightarrow>
        (case brightAt sg x y of
           None \<Rightarrow> acc
         | Some bright \<Rightarrow>
             if bright > thr then
               (let range = 255 - thr;
                    normalized = (bright - thr) / orOne range
                in (pts @ [\<lparr> pt_x = real x - real (width sg) / 2,
                              pt_y = real y - real (height sg) / 2,
                              pt_z = rnd k * 6 - 3,
                              pt_b = bright,
                              pt_n = normalized \<rparr>],
                    brightnessSum + normalized,
                    k + 1))
             else acc))"

definition soilScan :: "rng \<Rightarrow> Graphics \<Rightarrow> SoilSettings \<Rightarrow> nat \<Rightarrow> SoilPoint list \<times> real \<times> nat" where
  "soilScan rnd sg st k =
     forStep 0 (height sg) (spacing st)
       (\<lambda>y. forStep 0 (width sg) (spacing st) (scanBody rnd sg (threshold st) y)) ([], 0, k)"

section \<open>Fisher-Yates shuffle (lines 539-542 and 583-586)\<close>

text \<open>
  \<open>for (let i = a.length - 1; i > 0; i--)\<close>: \<open>j = Math.floor(Math.random() * (i + 1))\<close>,
  then \<open>a[i]\<close> and \<open>a[j]\<close> are exchanged. The first argument of \<open>shuffleLoop\<close> is \<open>i\<close>.
\<close>

fun shuffleLoop :: "rng \<Rightarrow> nat \<Rightarrow> 'a list \<times> nat \<Rightarrow> 'a list \<times> nat" where
  "shuffleLoop rnd 0 (xs, k) = (xs, k)"
| "shuffleLoop rnd (Suc i) (xs, k) =
     (let j = nat \<lfloor>rnd k * real (Suc i + 1)\<rfloor>
      in shuffleLoop rnd i (xs[Suc i := xs ! j, j := xs ! Suc i], k + 1))"

definition shuffle :: "rng \<Rightarrow> 'a list \<times> nat \<Rightarrow> 'a list \<times> nat" where
  "shuffle rnd a = shuffleLoop rnd (length (fst a) - 1) a"

text \<open>
  \<open>a.slice(0, e)\<close>: a negative end counts from the end of the array.
\<close>

definition sliceTo :: "'a list \<Rightarrow> int \<Rightarrow> 'a list" where
  "sliceTo xs e = (if e < 0 then take (nat (int (length xs) + e)) xs else take (nat e) xs)"

section \<open>Creatures (lines 799-1040)\<close>

text \<open>
  The four classes extend \<open>Creature\<close> and override only the constructor and
  \<open>display\<close>; what a subclass adds to the object is the \<open>organism\<close> field.
  An orbital is \<open>(axisX, axisY, axisZ, speed)\<close>, a particle \<open>(offset, speed)\<close>.
\<close>

datatype Organism =
    NeonTorus int
  | FluxRibbon "(real \<times> real) list"
  | TensorCore "(real \<times> real \<times> real \<times> real) list"
  | PrismSpire int real
  | Plain

record Creature =
  baseX :: real
  baseY :: real
  baseZ :: real
  strength :: real
  heightBase :: real
  radiusBase :: real
  thickness :: real
  growth :: real
  wind :: real
  contraction :: real
  verticalInf :: real
  time :: real
  hueOffset :: real
  organism :: Organism

definition newCreature :: "rng \<Rightarrow> real \<Rightarrow> real \<Rightarrow> real \<Rightarrow> CreatureParams \<Rightarrow> nat \<Rightarrow> Creature \<times> nat" where
  "newCreature rnd x y z params k =
     (\<lparr> baseX = x, baseY = y, baseZ = z,
         strength = cp_strength params,
         heightBase = 100, radiusBase = 10, thickness = 1,
         growth = 0, wind = 0, contraction = 0, verticalInf = 0, time = 0,
         hueOffset = (rnd k - 0.5) * 30,
         organism = Plain \<rparr>, k + 1)"

definition newNeonTorus :: "rng \<Rightarrow> real \<Rightarrow> real \<Rightarrow> real \<Rightarrow> CreatureParams \<Rightarrow> nat \<Rightarrow> Creature \<times> nat" where
  "newNeonTorus rnd x y z params k =
     (case newCreature rnd x y z params k of (c, k1) \<Rightarrow>
        (c\<lparr> heightBase := lerp 80 160 (strength c) * cp_heightFactor params,
            radiusBase := lerp 12 24 (strength c) * cp_thicknessFactor params,
            organism := NeonTorus \<lfloor>lerp 3 8 (strength c)\<rfloor> \<rparr>, k1))"

text \<open>\<open>for (let i = 0; i < 3; i++)\<close>, two draws a particle.\<close>

fun particlesLoop :: "rng \<Rightarrow> nat \<Rightarrow> (real \<times> real) list \<times> nat \<Rightarrow> (real \<times> real) list \<times> nat" where
  "particlesLoop rnd 0 acc = acc"
| "particlesLoop rnd (Suc m) (ps, k) =
     particlesLoop rnd m (ps @ [(rnd k * pi * 2, 1 + rnd (k + 1))], k + 2)"

definition newFluxRibbon :: "rng \<Rightarrow> real \<Rightarrow> real \<Rightarrow> real \<Rightarrow> CreatureParams \<Rightarrow> nat \<Rightarrow> Creature \<times> nat" where
  "newFluxRibbon rnd x y z params k =
     (case newCreature rnd x y z params k of (c, k1) \<Rightarrow>
        (case particlesLoop rnd 3 ([], k1) of (ps, k2) \<Rightarrow>
           (c\<lparr> heightBase := lerp 70 150 (strength c) * cp_heightFactor params,
               radiusBase := lerp 8 16 (strength c) * cp_thicknessFactor params,
               organism := FluxRibbon ps \<rparr>, k2)))"

text \<open>\<open>for (let i = 0; i < count; i++)\<close>, five draws an orbital.\<close>

fun orbitalsLoop :: "rng \<Rightarrow> nat \<Rightarrow> (real \<times> real \<times> real \<times> real) list \<times> nat \<Rightarrow> (real \<times> real \<times> real \<times> real) list \<times> nat" where
  "orbitalsLoop rnd 0 acc = acc"
| "orbitalsLoop rnd (Suc m) (os, k) =
     orbitalsLoop rnd m
       (os @ [(rnd k, rnd (k + 1), rnd (k + 2),
               (rnd (k + 3) + 0.5) * (if rnd (k + 4) > 0.5 then 1 else -1))], k + 5)"

definition newTensorCore :: "rng \<Rightarrow> real \<Rightarrow> real \<Rightarrow> real \<Rightarrow> CreatureParams \<Rightarrow> nat \<Rightarrow> Creature \<times> nat" where
  "newTensorCore rnd x y z params k =
     (case newCreature rnd x y z params k of (c, k1) \<Rightarrow>
        (let count = \<lfloor>lerp 2 4 (strength c)\<rfloor>
         in case orbitalsLoop rnd (nat count) ([], k1) of (os, k2) \<Rightarrow>
           (c\<lparr> heightBase := lerp 60 110 (strength c) * cp_heightFactor params,
               radiusBase := lerp 10 20 (strength c) * cp_thicknessFactor params,
               organism := TensorCore os \<rparr>, k2)))"

definition newPrismSpire :: "rng \<Rightarrow> real \<Rightarrow> real \<Rightarrow> real \<Rightarrow> CreatureParams \<Rightarrow> nat \<Rightarrow> Creature \<times> nat" where
  "newPrismSpire rnd x y z params k =
     (case newCreature rnd x y z params k of (c, k1) \<Rightarrow>
        (c\<lparr> heightBase := lerp 80 160 (strength c) * cp_heightFactor params,
            radiusBase := lerp 8 15 (strength c) * cp_thicknessFactor params,
            organism := PrismSpire \<lfloor>lerp 4 9 (strength c)\<rfloor> (rnd k1 * (pi * 2)) \<rparr>, k1 + 1))"

text \<open>\<open>Creature.update\<close> (lines 813-819); no subclass overrides it.\<close>

definition update :: "Creature \<Rightarrow> real \<Rightarrow> real \<Rightarrow> real \<Rightarrow> real \<Rightarrow> real \<Rightarrow> Creature" where
  "update c g w ct v frame =
     c\<lparr> growth := g, wind := w, contraction := ct, verticalInf := v, time := frame * 0.03 \<rparr>"

section \<open>The application state\<close>

text \<open>
  The fields of \<open>stateRef.current\<close> that generation and the growth tick read or
  write. \<open>state_wind\<close> and \<open>state_contraction\<close> are \<open>state.wind\<close> and
  \<open>state.contraction\<close>; \<open>inputX\<close> and \<open>inputY\<close> are
  \<open>state.mouseInteraction.position.x\<close> and \<open>.y\<close>.
\<close>

record AppState =
  settings :: SoilSettings
  sourceG :: "Graphics option"
  imgW :: real
  imgH :: real
  previewDots :: "PreviewDot list"
  soilPoints :: "SoilPoint list"
  creatures :: "Creature list"
  soilBehavior :: SoilBehavior
  growthStartFrame :: real
  growthProgress :: real
  state_wind :: real
  windTarget :: real
  verticalInfluence :: real
  state_contraction :: real
  isFist :: bool
  inputX :: real
  inputY :: real

section \<open>Population Spawner (setupCreatures, lines 574-613)\<close>

definition plantCount :: "nat \<Rightarrow> SoilBehavior \<Rightarrow> int" where
  "plantCount len behavior =
     (let minPlants = 30;
          maxPlants = 160;
          baseCount = \<lfloor>mapRange (real len) 50 1200 minPlants maxPlants\<rfloor>
      in \<lfloor>real_of_int baseCount * densityFactor behavior\<rfloor>)"

text \<open>
  The indices \<open>indices[0], ..., indices[useCount - 1]\<close> that the spawn loop reads:
  the shuffled \<open>0, ..., length - 1\<close>, cut at \<open>useCount = Math.min(plantCount, length)\<close>.
  The loop \<open>for (let i = 0; i < useCount; i++)\<close> does not run for \<open>useCount \<le> 0\<close>.
\<close>

definition spawnIndices :: "rng \<Rightarrow> nat \<Rightarrow> SoilBehavior \<Rightarrow> nat \<Rightarrow> nat list \<times> nat" where
  "spawnIndices rnd len behavior k =
     (case shuffle rnd ([0..<len], k) of (indices, k1) \<Rightarrow>
        (let useCount = min (plantCount len behavior) (int (length indices))
         in (take (nat useCount) indices, k1)))"

definition newOrganism :: "rng \<Rightarrow> SpeciesType \<Rightarrow> real \<Rightarrow> real \<Rightarrow> real \<Rightarrow> CreatureParams \<Rightarrow> nat \<Rightarrow> Creature \<times> nat" where
  "newOrganism rnd species x3d y3d z3d params k =
     (if species = torus then newNeonTorus rnd x3d y3d z3d params k
      else if species = mobius then newFluxRibbon rnd x3d y3d z3d params k
      else if species = knot then newTensorCore rnd x3d y3d z3d params k
      else newPrismSpire rnd x3d y3d z3d params k)"

text \<open>
  One round of the spawn loop, for the index \<open>indices[i]\<close>. A soil point always has
  its \<open>n\<close>, so \<open>strength\<close> is \<open>p.n\<close>.
\<close>

definition spawnOne :: "rng \<Rightarrow> SoilPoint list \<Rightarrow> SoilBehavior \<Rightarrow> SpeciesType \<Rightarrow> nat \<Rightarrow> Creature list \<times> nat \<Rightarrow> Creature list \<times> nat" where
  "spawnOne rnd points behavior species idx acc =
     (case acc of (cs, k) \<Rightarrow>
        (let p = points ! idx;
             strength = pt_n p;
             hf = lerp 0.8 1.5 strength * heightFactor behavior;
             tf = lerp 0.8 1.4 strength * thicknessFactor behavior;
             params = \<lparr> cp_strength = strength, cp_heightFactor = hf, cp_thicknessFactor = tf \<rparr>;
             x3d = pt_x p;
             z3d = pt_y p;
             y3d = pt_z p * 1.5
         in case newOrganism rnd species x3d y3d z3d params k of (c, k1) \<Rightarrow> (cs @ [c], k1)))"

definition setupCreatures :: "rng \<Rightarrow> SoilPoint list \<Rightarrow> SoilBehavior \<Rightarrow> SpeciesType \<Rightarrow> nat \<Rightarrow> Creature list \<times> nat" where
  "setupCreatures rnd points behavior species k =
     (case spawnIndices rnd (length points) behavior k of (sel, k1) \<Rightarrow>
        fold (spawnOne rnd points behavior species) sel ([], k1))"

section \<open>Final generation (generateDigitalSoil, lines 499-572)\<close>

text \<open>Lines 538-544: shuffle and cut when there are more points than \<open>maxPoints\<close>.\<close>

definition capPoints :: "rng \<Rightarrow> int \<Rightarrow> SoilPoint list \<times> nat \<Rightarrow> SoilPoint list \<times> nat" where
  "capPoints rnd mx a =
     (if int (length (fst a)) > mx
      then (case shuffle rnd a of (xs, k) \<Rightarrow> (sliceTo xs mx, k))
      else a)"

text \<open>Lines 546-556: the fallback for a dark image, two draws a point.\<close>

fun fallbackLoop :: "rng \<Rightarrow> real \<Rightarrow> real \<Rightarrow> nat \<Rightarrow> SoilPoint list \<times> nat \<Rightarrow> SoilPoint list \<times> nat" where
  "fallbackLoop rnd w h 0 acc = acc"
| "fallbackLoop rnd w h (Suc m) (pts, k) =
     fallbackLoop rnd w h m
       (pts @ [\<lparr> pt_x = (rnd k - 0.5) * w,
                  pt_y = (rnd (k + 1) - 0.5) * h,
                  pt_z = 0, pt_b = 255, pt_n = 1 \<rparr>], k + 2)"

definition darkFallback :: "rng \<Rightarrow> real \<Rightarrow> real \<Rightarrow> SoilPoint list \<times> nat \<Rightarrow> SoilPoint list \<times> nat" where
  "darkFallback rnd w h a = (if length (fst a) < 50 then fallbackLoop rnd w h 120 a else a)"

text \<open>Lines 559-565: the behavior profile.\<close>

definition behaviorOf :: "SoilSettings \<Rightarrow> real \<Rightarrow> SoilBehavior" where
  "behaviorOf st avgN =
     \<lparr> densityFactor = mapRange (real_of_int (spacing st)) 2 20 1.3 0.5,
       heightFactor = mapRange (dotSize st) 2 20 0.7 1.6 * mapRange (threshold st) 0 255 0.8 1.25,
       thicknessFactor = mapRange (dotSize st) 2 20 0.7 1.6,
       growthSpeed = mapRange (threshold st) 0 255 0.8 1.25,
       avgBrightness = avgN \<rparr>"

text \<open>
  The soil points at line 557, with \<open>brightnessSum\<close>: scan, cap, fallback.
\<close>

definition finalPoints :: "rng \<Rightarrow> Graphics \<Rightarrow> SoilSettings \<Rightarrow> real \<Rightarrow> real \<Rightarrow> nat \<Rightarrow> SoilPoint list \<times> real \<times> nat" where
  "finalPoints rnd sg st w h k =
     (case soilScan rnd sg st k of (pts, brightnessSum, k1) \<Rightarrow>
        (case darkFallback rnd w h (capPoints rnd (maxPoints st) (pts, k1)) of (pts', k2) \<Rightarrow>
           (pts', brightnessSum, k2)))"

text \<open>
  \<open>species\<close> is the component's \<open>currentSpecies\<close>; \<open>p5frame\<close> is the frame count
  of the p5 instance, \<open>None\<close> when there is no instance. The scene switch and the
  status text belong to the user interface and are left out.
\<close>

definition generateDigitalSoil :: "rng \<Rightarrow> SpeciesType \<Rightarrow> real option \<Rightarrow> AppState \<Rightarrow> nat \<Rightarrow> AppState \<times> nat" where
  "generateDigitalSoil rnd species p5frame s k =
     (case sourceG s of
        None \<Rightarrow> (s\<lparr> soilPoints := [] \<rparr>, k)
      | Some sg \<Rightarrow>
         (case finalPoints rnd sg (settings s) (imgW s) (imgH s) k of (pts, brightnessSum, k1) \<Rightarrow>
            (let avgN = (if length pts > 0 then brightnessSum / real (length pts) else 0.5);
                 behavior = behaviorOf (settings s) avgN
             in case setupCreatures rnd pts behavior species k1 of (cs, k2) \<Rightarrow>
                  (s\<lparr> soilPoints := pts,
                      soilBehavior := behavior,
                      growthStartFrame := (case p5frame of Some f \<Rightarrow> f | None \<Rightarrow> 0),
                      growthProgress := 0,
                      creatures := cs \<rparr>, k2))))"

section \<open>The growth tick (drawGrowthScene, lines 283-311 and 342-351)\<close>

text \<open>
  Modelled from the spec: \<open>p.lerp\<close>, \<open>p.map\<close> and \<open>p.constrain\<close> are functions of the
  p5 library, whose code is not among the sources. The spec gives them as
  \<open>lerp\<close>, as \<open>remap(v, i1\<rightarrow>i2, o1\<rightarrow>o2) = o1 + (o2-o1) * (v-i1)/(i2-i1)\<close> and as
  \<open>clamp\<close>; \<open>p.lerp\<close> is the formula of the module's own \<open>lerp\<close>.
\<close>

definition p5_lerp :: "real \<Rightarrow> real \<Rightarrow> real \<Rightarrow> real" where
  "p5_lerp start stop amt = lerp start stop amt"

definition p5_map :: "real \<Rightarrow> real \<Rightarrow> real \<Rightarrow> real \<Rightarrow> real \<Rightarrow> real" where
  "p5_map v i1 i2 o1 o2 = o1 + (o2 - o1) * ((v - i1) / (i2 - i1))"

definition p5_constrain :: "real \<Rightarrow> real \<Rightarrow> real \<Rightarrow> real" where
  "p5_constrain v low high = max (min v high) low"

text \<open>The targets the tick smooths towards.\<close>

definition windTargetOf :: "real \<Rightarrow> AppState \<Rightarrow> real" where
  "windTargetOf pwidth s = p5_map (inputX s) (- pwidth / 2) (pwidth / 2) (-1) 1 * 1.0"

definition verticalTargetOf :: "real \<Rightarrow> AppState \<Rightarrow> real" where
  "verticalTargetOf pheight s =
     p5_constrain (p5_map (inputY s) (- pheight / 2) (pheight / 2) 1 0) 0 1"

definition contractionTargetOf :: "AppState \<Rightarrow> real" where
  "contractionTargetOf s = (if isFist s then 1.0 else 0.0)"

text \<open>
  One tick, with the canvas size and \<open>p.frameCount\<close>. The camera (drag rotation,
  zoom, scroll twist) and the drawing are left out.
\<close>

definition drawGrowthScene :: "real \<Rightarrow> real \<Rightarrow> real \<Rightarrow> AppState \<Rightarrow> AppState" where
  "drawGrowthScene pwidth pheight frameCount s =
     (let elapsed = frameCount - growthStartFrame s;
          speed = orOne (growthSpeed (soilBehavior s));
          g = p5_constrain ((elapsed / 200) * speed) 0 1;
          wt = windTargetOf pwidth s;
          w = p5_lerp (state_wind s) wt 0.05;
          v = p5_lerp (verticalInfluence s) (verticalTargetOf pheight s) 0.1;
          c = p5_lerp (state_contraction s) (contractionTargetOf s) 0.1
      in s\<lparr> growthProgress := g,
            windTarget := wt,
            state_wind := w,
            verticalInfluence := v,
            state_contraction := c,
            creatures := map (\<lambda>cr. update cr g w c v frameCount) (creatures s) \<rparr>)"

text \<open>\<open>n\<close> ticks in a row, the frame count going up by one each.\<close>

fun runTicks :: "real \<Rightarrow> real \<Rightarrow> real \<Rightarrow> nat \<Rightarrow> AppState \<Rightarrow> AppState" where
  "runTicks pwidth pheight frameCount 0 s = s"
| "runTicks pwidth pheight frameCount (Suc n) s =
     runTicks pwidth pheight (frameCount + 1) n (drawGrowthScene pwidth pheight frameCount s)"

section \<open>Notions used in the statements\<close>

text \<open>
  A point that the final scan keeps: it stands at a grid pixel whose luminance is
  above the threshold, and carries that luminance and the normalized intensity.
\<close>

definition scanned :: "Graphics \<Rightarrow> real \<Rightarrow> SoilPoint \<Rightarrow> bool" where
  "scanned sg thr p =
     (\<exists>x y. x < width sg \<and> y < height sg \<and> brightAt sg x y = Some (pt_b p) \<and> thr < pt_b p
        \<and> pt_n p = (pt_b p - thr) / orOne (255 - thr)
        \<and> pt_x p = real x - real (width sg) / 2 \<and> pt_y p = real y - real (height sg) / 2)"

text \<open>
  A dot that the preview scan keeps: it stands at a grid pixel above the threshold,
  its size is the normalized intensity times the dot size, and the size is above 0.3.
\<close>

definition previewed :: "Graphics \<Rightarrow> SoilSettings \<Rightarrow> PreviewDot \<Rightarrow> bool" where
  "previewed sg st d =
     (\<exists>x y br. x < width sg \<and> y < height sg \<and> brightAt sg x y = Some br \<and> threshold st < br
        \<and> dot_size d = (br - threshold st) / orOne (255 - threshold st) * dotSize st
        \<and> 0.3 < dot_size d
        \<and> dot_x d = real x - real (width sg) / 2 \<and> dot_y d = real y - real (height sg) / 2)"

text \<open>The point that the fallback pushes with the draws \<open>k\<close> and \<open>k + 1\<close>.\<close>

definition synthetic :: "rng \<Rightarrow> real \<Rightarrow> real \<Rightarrow> nat \<Rightarrow> SoilPoint" where
  "synthetic rnd w h k =
     \<lparr> pt_x = (rnd k - 0.5) * w, pt_y = (rnd (k + 1) - 0.5) * h, pt_z = 0, pt_b = 255, pt_n = 1 \<rparr>"

text \<open>
  Where a creature stands, and where the spawn loop puts the creature of the soil
  point with index \<open>i\<close>: \<open>(p.x, p.z * 1.5, p.y)\<close>.
\<close>

definition spawnPlace :: "SoilPoint list \<Rightarrow> nat \<Rightarrow> real \<times> real \<times> real" where
  "spawnPlace points i = (pt_x (points ! i), pt_z (points ! i) * 1.5, pt_y (points ! i))"

definition placeOf :: "Creature \<Rightarrow> real \<times> real \<times> real" where
  "placeOf c = (baseX c, baseY c, baseZ c)"

text \<open>
  Names for two intermediate values of final generation: the points the scan keeps,
  and the points and the stream position after the cap of lines 538-544.
\<close>

definition scanPoints :: "rng \<Rightarrow> Graphics \<Rightarrow> SoilSettings \<Rightarrow> nat \<Rightarrow> SoilPoint list" where
  "scanPoints rnd sg st k = fst (soilScan rnd sg st k)"

definition cappedPoints :: "rng \<Rightarrow> Graphics \<Rightarrow> SoilSettings \<Rightarrow> nat \<Rightarrow> SoilPoint list \<times> nat" where
  "cappedPoints rnd sg st k =
     capPoints rnd (maxPoints st) (fst (soilScan rnd sg st k), snd (snd (soilScan rnd sg st k)))"

text \<open>
  The number of rounds of a grid loop from 0 to \<open>bound\<close> with the step of the spacing.
\<close>

definition gridCount :: "nat \<Rightarrow> int \<Rightarrow> nat" where
  "gridCount bound sp = (bound + stepOf sp - 1) div stepOf sp"

text \<open>
  The swap partners \<open>j\<close> that the shuffle loop computes from the draws, in the order
  of its rounds \<open>i, i - 1, ..., 1\<close>, when it starts at position \<open>k\<close> of the stream: round
  \<open>m\<close> handles the index \<open>i - m\<close> and takes \<open>Math.floor(Math.random() * (i - m + 1))\<close>.
\<close>

definition shuffleChoices :: "rng \<Rightarrow> nat \<Rightarrow> nat \<Rightarrow> nat list" where
  "shuffleChoices rnd k i = map (\<lambda>m. nat \<lfloor>rnd (k + m) * real (i - m + 1)\<rfloor>) [0..<i]"

text \<open>
  The exchanges of the shuffle loop for given partners, and the partners the loop can
  take: one for each round, the partner of the index \<open>i - m\<close> among \<open>0, ..., i - m\<close>.
\<close>

fun swapsFrom :: "nat \<Rightarrow> nat list \<Rightarrow> 'a list \<Rightarrow> 'a list" where
  "swapsFrom (Suc i) (j # js) xs = swapsFrom i js (xs[Suc i := xs ! j, j := xs ! Suc i])"
| "swapsFrom i js xs = xs"

definition validChoices :: "nat \<Rightarrow> nat list \<Rightarrow> bool" where
  "validChoices i js = (length js = i \<and> (\<forall>m<i. js ! m \<le> i - m))"

section \<open>Concrete inputs\<close>

text \<open>
  Streams of draws that are all one half, and all zero.
\<close>

definition halfDraws :: rng where
  "halfDraws k = 1 / 2"

definition zeroDraws :: rng where
  "zeroDraws k = 0"

text \<open>The initial settings (lines 25-31) and the initial state object (lines 39-86).\<close>

definition defaultSettings :: SoilSettings where
  "defaultSettings = \<lparr> threshold = 100, dotSize = 8, spacing = 4, shape = Dot, maxPoints = 2000 \<rparr>"

definition initialState :: AppState where
  "initialState =
     \<lparr> settings = defaultSettings, sourceG = None, imgW = 0, imgH = 0,
       previewDots = [], soilPoints = [], creatures = [],
       soilBehavior = \<lparr> densityFactor = 1, heightFactor = 1, thicknessFactor = 1,
                        growthSpeed = 1, avgBrightness = 0 \<rparr>,
       growthStartFrame = 0, growthProgress = 0,
       state_wind = 0, windTarget = 0, verticalInfluence = 0, state_contraction = 0,
       isFist = False, inputX = 0, inputY = 0 \<rparr>"

text \<open>A 100 x 100 image, every channel 200, and the settings of the preview scenario.\<close>

definition gray200 :: Graphics where
  "gray200 = \<lparr> width = 100, height = 100, pixels = replicate 40000 200 \<rparr>"

definition scenarioSettings :: SoilSettings where
  "scenarioSettings = \<lparr> threshold = 100, dotSize = 8, spacing = 10, shape = Dot, maxPoints = 2000 \<rparr>"

text \<open>The pointer at the right edge and at the top of a 900 x 600 canvas, the hand closed.\<close>

definition pointerState :: AppState where
  "pointerState = initialState\<lparr> inputX := 450, inputY := - 300, isFist := True \<rparr>"

text \<open>
  An all-black image as an upload produces it (720 x 480, every byte 0), in the
  initial state.
\<close>

definition black720 :: Graphics where
  "black720 = \<lparr> width = 720, height = 480, pixels = replicate 1382400 0 \<rparr>"

definition darkState :: AppState where
  "darkState = initialState\<lparr> sourceG := Some black720, imgW := 720, imgH := 480 \<rparr>"

text \<open>
  An all-white image as an upload produces it (720 x 480, every byte 255), in the
  initial state; and the 120 points that generation makes of the all-black image.
\<close>

definition white720 :: Graphics where
  "white720 = \<lparr> width = 720, height = 480, pixels = replicate 1382400 255 \<rparr>"

definition whiteState :: AppState where
  "whiteState = initialState\<lparr> sourceG := Some white720, imgW := 720, imgH := 480 \<rparr>"

definition darkPoints :: "SoilPoint list" where
  "darkPoints = map (\<lambda>i. synthetic halfDraws 720 480 (2 * i)) [0..<120]"

text \<open>
  The all-black image with one white pixel, the first, in the initial state.
\<close>

definition spark720 :: Graphics where
  "spark720 = \<lparr> width = 720, height = 480,
                 pixels = [255, 255, 255, 255] @ replicate 1382396 0 \<rparr>"

definition sparkState :: AppState where
  "sparkState = initialState\<lparr> sourceG := Some spark720, imgW := 720, imgH := 480 \<rparr>"

section \<open>Lemmas\<close>

subsection \<open>The loop and the scan\<close>

lemma forStep_invariant:
  assumes "P s" and "\<And>i t. i < bound \<Longrightarrow> P t \<Longrightarrow> P (body i t)"
  shows "P (forStep i bound sp body s)"
  using assms
proof (induction i bound sp body s rule: forStep.induct)
  case (1 i bound sp body s)
  show ?case
  proof (cases "i < bound")
    case True
    have "P (body i s)" by (rule "1.prems"(2)[OF True]) (rule "1.prems"(1))
    then have "P (forStep (i + stepOf sp) bound sp body (body i s))"
      using "1.IH"[OF True] "1.prems"(2) by simp
    moreover have "forStep i bound sp body s = forStep (i + stepOf sp) bound sp body (body i s)"
      using True forStep.simps[of i bound sp body s] by simp
    ultimately show ?thesis by simp
  next
    case False
    then have "forStep i bound sp body s = s"
      using forStep.simps[of i bound sp body s] by simp
    then show ?thesis using "1.prems"(1) by simp
  qed
qed

text \<open>Luminance of a byte pixel lies in [0, 255].\<close>

lemma pixelAt_range: "pixelAt px i = Some v \<Longrightarrow> 0 \<le> v \<and> v \<le> 255"
proof -
  assume a: "pixelAt px i = Some v"
  then have v: "v = real (unat (px ! i))" by (simp add: pixelAt_def split: if_splits)
  have "unat (px ! i) < 2 ^ LENGTH(8)" by (rule unsigned_less)
  then have "unat (px ! i) \<le> 255" by simp
  then have "real (unat (px ! i)) \<le> real 255" by (rule of_nat_mono)
  moreover have "0 \<le> real (unat (px ! i))" by (rule of_nat_0_le_iff)
  ultimately show ?thesis using v by (simp del: of_nat_unat)
qed

lemma brightAt_range:
  assumes "brightAt sg x y = Some br"
  shows "0 \<le> br \<and> br \<le> 255"
proof -
  obtain r g b where r: "pixelAt (pixels sg) ((x + y * width sg) * 4) = Some r"
    and g: "pixelAt (pixels sg) ((x + y * width sg) * 4 + 1) = Some g"
    and b: "pixelAt (pixels sg) ((x + y * width sg) * 4 + 2) = Some b"
    and br: "br = r * 0.299 + g * 0.587 + b * 0.114"
    using assms by (auto simp: brightAt_def Let_def split: option.splits)
  show ?thesis using pixelAt_range[OF r] pixelAt_range[OF g] pixelAt_range[OF b] br by simp
qed

text \<open>The scan: every point it keeps comes from a pixel above the threshold.\<close>

lemma scanBody_scanned:
  assumes "x < width sg" and "y < height sg" and "\<forall>p \<in> set (fst acc). scanned sg thr p"
  shows "\<forall>p \<in> set (fst (scanBody rnd sg thr y x acc)). scanned sg thr p"
proof (cases acc)
  case (fields pts bsum k)
  show ?thesis
  proof (cases "brightAt sg x y")
    case None
    then show ?thesis using assms(3) fields by (simp add: scanBody_def)
  next
    case (Some br)
    show ?thesis
    proof (cases "br > thr")
      case True
      let ?p = "\<lparr> pt_x = real x - real (width sg) / 2, pt_y = real y - real (height sg) / 2,
                   pt_z = rnd k * 6 - 3, pt_b = br, pt_n = (br - thr) / orOne (255 - thr) \<rparr>"
      have "scanned sg thr ?p" unfolding scanned_def using assms(1,2) Some True by auto
      moreover have "fst (scanBody rnd sg thr y x acc) = pts @ [?p]"
        using fields Some True by (simp add: scanBody_def Let_def)
      ultimately show ?thesis using assms(3) fields by auto
    next
      case False
      then show ?thesis using assms(3) fields Some by (simp add: scanBody_def)
    qed
  qed
qed

lemma soilScan_scanned: "\<forall>p \<in> set (fst (soilScan rnd sg st k)). scanned sg (threshold st) p"
  unfolding soilScan_def
proof (rule forStep_invariant)
  show "\<forall>p\<in>set (fst ([], 0, k)). scanned sg (threshold st) p" by simp
next
  fix y and t :: "SoilPoint list \<times> real \<times> nat"
  assume y: "y < height sg" and t: "\<forall>p\<in>set (fst t). scanned sg (threshold st) p"
  show "\<forall>p\<in>set (fst (forStep 0 (width sg) (spacing st) (scanBody rnd sg (threshold st) y) t)).
          scanned sg (threshold st) p"
  proof (rule forStep_invariant)
    show "\<forall>p\<in>set (fst t). scanned sg (threshold st) p" by (rule t)
  next
    fix x and u :: "SoilPoint list \<times> real \<times> nat"
    assume x: "x < width sg" and u: "\<forall>p\<in>set (fst u). scanned sg (threshold st) p"
    show "\<forall>p\<in>set (fst (scanBody rnd sg (threshold st) y x u)). scanned sg (threshold st) p"
      by (rule scanBody_scanned[OF x y u])
  qed
qed

lemma scanBody_dark:
  assumes "\<forall>br. brightAt sg x y = Some br \<longrightarrow> br \<le> thr"
  shows "scanBody rnd sg thr y x acc = acc"
  using assms by (cases acc) (auto simp: scanBody_def split: option.splits)

lemma soilScan_dark:
  assumes "\<forall>x<width sg. \<forall>y<height sg. \<forall>br. brightAt sg x y = Some br \<longrightarrow> br \<le> threshold st"
  shows "soilScan rnd sg st k = ([], 0, k)"
  unfolding soilScan_def
proof (rule forStep_invariant[where P = "\<lambda>t. t = ([], 0, k)"])
  show "([], 0, k) = (([], 0, k) :: SoilPoint list \<times> real \<times> nat)" by simp
next
  fix y and t :: "SoilPoint list \<times> real \<times> nat"
  assume y: "y < height sg" and t: "t = ([], 0, k)"
  show "forStep 0 (width sg) (spacing st) (scanBody rnd sg (threshold st) y) t = ([], 0, k)"
  proof (rule forStep_invariant[where P = "\<lambda>t. t = ([], 0, k)"])
    show "t = ([], 0, k)" by (rule t)
  next
    fix x and u :: "SoilPoint list \<times> real \<times> nat"
    assume x: "x < width sg" and u: "u = ([], 0, k)"
    have "\<forall>br. brightAt sg x y = Some br \<longrightarrow> br \<le> threshold st" using assms x y by blast
    then show "scanBody rnd sg (threshold st) y x u = ([], 0, k)"
      using u by (simp add: scanBody_dark)
  qed
qed

text \<open>The shuffle.\<close>

lemma shuffleLoop_length: "length (fst (shuffleLoop rnd i (xs, k))) = length xs"
  by (induction i arbitrary: xs k) (simp_all add: Let_def)

lemma shuffleLoop_snd: "snd (shuffleLoop rnd i (xs, k)) = k + i"
  by (induction i arbitrary: xs k) (simp_all add: Let_def)

lemma shuffle_length: "length (fst (shuffle rnd (xs, k))) = length xs"
  by (simp add: shuffle_def shuffleLoop_length)

lemma shuffle_snd: "snd (shuffle rnd (xs, k)) = k + (length xs - 1)"
  by (simp add: shuffle_def shuffleLoop_snd)

lemma draw_index_le:
  assumes "0 \<le> r" and "r < 1"
  shows "nat \<lfloor>r * real (Suc i)\<rfloor> \<le> i"
proof -
  have "r * real (Suc i) < real (Suc i)" using assms by simp
  then have "\<lfloor>r * real (Suc i)\<rfloor> < int (Suc i)" by (simp add: floor_less_iff)
  then show ?thesis by linarith
qed

lemma shuffleLoop_mset:
  assumes "unitDraws rnd"
  shows "i < length xs \<Longrightarrow> mset (fst (shuffleLoop rnd i (xs, k))) = mset xs"
proof (induction i arbitrary: xs k)
  case 0
  then show ?case by simp
next
  case (Suc i)
  let ?j = "nat \<lfloor>rnd k * real (Suc i + 1)\<rfloor>"
  have j: "?j \<le> Suc i" using assms draw_index_le[of "rnd k" "Suc i"] by (simp add: unitDraws_def)
  let ?ys = "xs[Suc i := xs ! ?j, ?j := xs ! Suc i]"
  have "mset ?ys = mset xs" using Suc.prems j by (simp add: mset_swap)
  moreover have "i < length ?ys" using Suc.prems by simp
  ultimately show ?case using Suc.IH[of ?ys "k + 1"] by (simp add: Let_def)
qed

lemma shuffle_mset:
  assumes "unitDraws rnd"
  shows "mset (fst (shuffle rnd (xs, k))) = mset xs"
proof (cases xs)
  case Nil
  then show ?thesis by (simp add: shuffle_def)
next
  case (Cons a list)
  then have "length xs - 1 < length xs" by simp
  then show ?thesis using shuffleLoop_mset[OF assms] by (simp add: shuffle_def)
qed

text \<open>The cap and the fallback.\<close>

lemma sliceTo_length: "0 \<le> e \<Longrightarrow> length (sliceTo xs e) = min (nat e) (length xs)"
  by (simp add: sliceTo_def)

lemma capPoints_fst:
  "fst (capPoints rnd mx (pts, k)) =
     (if int (length pts) > mx then sliceTo (fst (shuffle rnd (pts, k))) mx else pts)"
  by (simp add: capPoints_def split: prod.splits)

lemma capPoints_snd:
  "snd (capPoints rnd mx (pts, k)) = (if int (length pts) > mx then k + (length pts - 1) else k)"
  using shuffle_snd[of rnd pts k] by (auto simp: capPoints_def split: prod.splits)

lemma fallbackLoop_eq:
  "fallbackLoop rnd w h m (pts, k) =
     (pts @ map (\<lambda>i. synthetic rnd w h (k + 2 * i)) [0..<m], k + 2 * m)"
proof (induction m arbitrary: pts k)
  case 0
  then show ?case by simp
next
  case (Suc m)
  have "map (\<lambda>i. synthetic rnd w h (k + 2 * i)) [0..<Suc m] =
        synthetic rnd w h k # map (\<lambda>i. synthetic rnd w h (k + 2 + 2 * i)) [0..<m]"
    by (simp add: upt_conv_Cons map_Suc_upt[symmetric] del: upt_Suc)
  then show ?case using Suc.IH by (simp add: synthetic_def del: upt_Suc)
qed

lemma darkFallback_eq:
  "darkFallback rnd w h (pts, k) =
     (if length pts < 50 then (pts @ map (\<lambda>i. synthetic rnd w h (k + 2 * i)) [0..<120], k + 240)
      else (pts, k))"
  by (simp add: darkFallback_def fallbackLoop_eq)

text \<open>What generation stores.\<close>

lemma generate_points:
  assumes "sourceG s = Some sg"
  shows "soilPoints (fst (generateDigitalSoil rnd species p5frame s k)) =
           fst (finalPoints rnd sg (settings s) (imgW s) (imgH s) k)"
  using assms by (simp add: generateDigitalSoil_def Let_def split: prod.splits)

lemma generate_behavior:
  assumes "sourceG s = Some sg"
    and "finalPoints rnd sg (settings s) (imgW s) (imgH s) k = (pts, brightnessSum, k1)"
  shows "soilBehavior (fst (generateDigitalSoil rnd species p5frame s k)) =
           behaviorOf (settings s)
             (if length pts > 0 then brightnessSum / real (length pts) else 0.5)"
  using assms by (simp add: generateDigitalSoil_def Let_def split: prod.splits)

lemma generate_creatures:
  assumes "sourceG s = Some sg"
    and "finalPoints rnd sg (settings s) (imgW s) (imgH s) k = (pts, brightnessSum, k1)"
  shows "creatures (fst (generateDigitalSoil rnd species p5frame s k)) =
           fst (setupCreatures rnd pts (behaviorOf (settings s)
             (if length pts > 0 then brightnessSum / real (length pts) else 0.5)) species k1)"
  using assms by (simp add: generateDigitalSoil_def Let_def split: prod.splits)

lemma finalPoints_fst:
  "fst (finalPoints rnd sg st w h k) =
     fst (darkFallback rnd w h
            (capPoints rnd (maxPoints st) (fst (soilScan rnd sg st k), snd (snd (soilScan rnd sg st k)))))"
  by (simp add: finalPoints_def split: prod.splits)

lemma finalPoints_sum:
  "fst (snd (finalPoints rnd sg st w h k)) = fst (snd (soilScan rnd sg st k))"
  by (simp add: finalPoints_def split: prod.splits)

lemma newOrganism_base:
  "baseX (fst (newOrganism rnd species x y z params k)) = x
   \<and> baseY (fst (newOrganism rnd species x y z params k)) = y
   \<and> baseZ (fst (newOrganism rnd species x y z params k)) = z
   \<and> strength (fst (newOrganism rnd species x y z params k)) = cp_strength params"
  by (simp add: newOrganism_def newNeonTorus_def newFluxRibbon_def newTensorCore_def
      newPrismSpire_def newCreature_def Let_def split: prod.splits)

lemma spawnOne_fst:
  "map placeOf (fst (spawnOne rnd points behavior species i (cs, k))) =
     map placeOf cs @ [spawnPlace points i]"
proof -
  let ?params = "\<lparr> cp_strength = pt_n (points ! i),
      cp_heightFactor = lerp 0.8 1.5 (pt_n (points ! i)) * heightFactor behavior,
      cp_thicknessFactor = lerp 0.8 1.4 (pt_n (points ! i)) * thicknessFactor behavior \<rparr>"
  obtain c k1 where e: "newOrganism rnd species (pt_x (points ! i)) (pt_z (points ! i) * 1.5)
      (pt_y (points ! i)) ?params k = (c, k1)"
    by (cases "newOrganism rnd species (pt_x (points ! i)) (pt_z (points ! i) * 1.5)
      (pt_y (points ! i)) ?params k")
  have "placeOf c = spawnPlace points i"
    using newOrganism_base[of rnd species "pt_x (points ! i)" "pt_z (points ! i) * 1.5"
        "pt_y (points ! i)" ?params k] e
    by (simp add: placeOf_def spawnPlace_def)
  moreover have "spawnOne rnd points behavior species i (cs, k) = (cs @ [c], k1)"
    using e by (simp add: spawnOne_def Let_def)
  ultimately show ?thesis by simp
qed

lemma fold_spawnOne:
  "map placeOf (fst (fold (spawnOne rnd points behavior species) sel (cs, k))) =
     map placeOf cs @ map (spawnPlace points) sel"
proof (induction sel arbitrary: cs k)
  case Nil
  then show ?case by simp
next
  case (Cons i sel)
  obtain cs' k' where s: "spawnOne rnd points behavior species i (cs, k) = (cs', k')"
    by (cases "spawnOne rnd points behavior species i (cs, k)")
  have "map placeOf cs' = map placeOf cs @ [spawnPlace points i]"
    using spawnOne_fst[of rnd points behavior species i cs k] s by simp
  then show ?case using Cons.IH[of cs' k'] s by simp
qed

lemma setupCreatures_places:
  "map placeOf (fst (setupCreatures rnd points behavior species k)) =
     map (spawnPlace points) (fst (spawnIndices rnd (length points) behavior k))"
  by (simp add: setupCreatures_def fold_spawnOne split: prod.splits)

lemma spawnIndices_fst:
  "fst (spawnIndices rnd len behavior k) =
     take (nat (min (plantCount len behavior) (int len))) (fst (shuffle rnd ([0..<len], k)))"
  using shuffle_length[of rnd "[0..<len]" k]
  by (auto simp: spawnIndices_def Let_def split: prod.splits)

lemma spawnIndices_props:
  assumes "unitDraws rnd"
  shows "distinct (fst (spawnIndices rnd len behavior k))"
    and "set (fst (spawnIndices rnd len behavior k)) \<subseteq> {0..<len}"
    and "int (length (fst (spawnIndices rnd len behavior k))) = max 0 (min (plantCount len behavior) (int len))"
proof -
  let ?perm = "fst (shuffle rnd ([0..<len], k))"
  have m: "mset ?perm = mset [0..<len]" by (rule shuffle_mset[OF assms])
  have d: "distinct ?perm" using m mset_eq_imp_distinct_iff distinct_upt by blast
  have s: "set ?perm = {0..<len}" using m mset_eq_setD by fastforce
  show "distinct (fst (spawnIndices rnd len behavior k))"
    unfolding spawnIndices_fst using d by (rule distinct_take)
  show "set (fst (spawnIndices rnd len behavior k)) \<subseteq> {0..<len}"
    unfolding spawnIndices_fst using s set_take_subset by fastforce
  show "int (length (fst (spawnIndices rnd len behavior k))) = max 0 (min (plantCount len behavior) (int len))"
    unfolding spawnIndices_fst using shuffle_length[of rnd "[0..<len]" k] by simp
qed

lemma preview_row_200:
  assumes "width sg = 100" and "height sg = 100"
    and b: "\<And>x y. x < 100 \<Longrightarrow> y < 100 \<Longrightarrow> brightAt sg x y = Some 200"
    and "threshold st = 100" and "spacing st = 10" and "dotSize st = 8"
    and y: "y < 100"
  shows "forStep 0 (width sg) (spacing st) (previewBody sg st y) dots =
     dots @ map (\<lambda>x. \<lparr> dot_x = real x - 50, dot_y = real y - 50, dot_size = 160 / 31 \<rparr>)
       [0, 10, 20, 30, 40, 50, 60, 70, 80, 90]"
  using assms(1,2,4,5,6) y
  by (simp add: forStep.simps stepOf_def previewBody_def orOne_def b Let_def)

lemma preview_scan_200:
  assumes "width sg = 100" and "height sg = 100"
    and b: "\<And>x y. x < 100 \<Longrightarrow> y < 100 \<Longrightarrow> brightAt sg x y = Some 200"
    and "threshold st = 100" and "spacing st = 10" and "dotSize st = 8"
  shows "previewScan sg st =
     concat (map (\<lambda>y. map (\<lambda>x. \<lparr> dot_x = real x - 50, dot_y = real y - 50, dot_size = 160 / 31 \<rparr>)
        [0, 10, 20, 30, 40, 50, 60, 70, 80, 90]) [0, 10, 20, 30, 40, 50, 60, 70, 80, 90])"
proof -
  have row: "\<And>y dots. y < 100 \<Longrightarrow>
      forStep 0 (width sg) 10 (previewBody sg st y) dots =
      dots @ map (\<lambda>x. \<lparr> dot_x = real x - 50, dot_y = real y - 50, dot_size = 160 / 31 \<rparr>)
       [0, 10, 20, 30, 40, 50, 60, 70, 80, 90]"
    using preview_row_200[OF assms(1,2) b assms(4,5,6)] assms(5) by simp
  show ?thesis
    unfolding previewScan_def assms(2) assms(5)
    by (simp add: forStep.simps[of _ "100"] stepOf_def row)
qed

lemma gray200_bright: "\<forall>x<100. \<forall>y<100. brightAt gray200 x y = Some 200"
  by (simp add: gray200_def brightAt_def pixelAt_def Let_def)

subsection \<open>The behavior profile\<close>

lemma mapRange_strict_mono:
  assumes "i1 < i2" and "o1 < o2" and "v < w"
  shows "mapRange v i1 i2 o1 o2 < mapRange w i1 i2 o1 o2"
proof -
  have "(v - i1) / (i2 - i1) < (w - i1) / (i2 - i1)"
    using assms(1,3) by (simp add: divide_strict_right_mono)
  then have "(o2 - o1) * ((v - i1) / (i2 - i1)) < (o2 - o1) * ((w - i1) / (i2 - i1))"
    by (rule mult_strict_left_mono) (use assms(2) in simp)
  then show ?thesis by (simp add: mapRange_def)
qed

lemma mapRange_strict_anti:
  assumes "i1 < i2" and "o2 < o1" and "v < w"
  shows "mapRange w i1 i2 o1 o2 < mapRange v i1 i2 o1 o2"
proof -
  have "(v - i1) / (i2 - i1) < (w - i1) / (i2 - i1)"
    using assms(1,3) by (simp add: divide_strict_right_mono)
  then have "(o2 - o1) * ((w - i1) / (i2 - i1)) < (o2 - o1) * ((v - i1) / (i2 - i1))"
    by (rule mult_strict_left_mono_neg) (use assms(2) in simp)
  then show ?thesis by (simp add: mapRange_def)
qed

lemma threshold_factor_pos:
  assumes "0 \<le> t" and "t \<le> 255"
  shows "0 < mapRange t 0 255 0.8 1.25"
proof -
  have "0 \<le> (1.25 - 0.8) * ((t - 0) / (255 - 0))" using assms(1) by simp
  then show ?thesis by (simp add: mapRange_def)
qed

subsection \<open>Smoothing\<close>

lemma lerp_distance: "lerp v t a - t = (1 - a) * (v - t)"
  by (simp add: lerp_def algebra_simps)

lemma tick_inputs:
  "inputX (drawGrowthScene pw ph f s) = inputX s
   \<and> inputY (drawGrowthScene pw ph f s) = inputY s
   \<and> isFist (drawGrowthScene pw ph f s) = isFist s"
  by (simp add: drawGrowthScene_def Let_def)

lemma tick_targets:
  "windTargetOf pw (drawGrowthScene pw ph f s) = windTargetOf pw s
   \<and> verticalTargetOf ph (drawGrowthScene pw ph f s) = verticalTargetOf ph s
   \<and> contractionTargetOf (drawGrowthScene pw ph f s) = contractionTargetOf s"
  using tick_inputs[of pw ph f s]
  by (simp add: windTargetOf_def verticalTargetOf_def contractionTargetOf_def)

lemma tick_distance:
  "state_wind (drawGrowthScene pw ph f s) - windTargetOf pw s = 0.95 * (state_wind s - windTargetOf pw s)
   \<and> verticalInfluence (drawGrowthScene pw ph f s) - verticalTargetOf ph s
       = 0.9 * (verticalInfluence s - verticalTargetOf ph s)
   \<and> state_contraction (drawGrowthScene pw ph f s) - contractionTargetOf s
       = 0.9 * (state_contraction s - contractionTargetOf s)"
proof -
  have "state_wind (drawGrowthScene pw ph f s) = lerp (state_wind s) (windTargetOf pw s) 0.05"
    and "verticalInfluence (drawGrowthScene pw ph f s) = lerp (verticalInfluence s) (verticalTargetOf ph s) 0.1"
    and "state_contraction (drawGrowthScene pw ph f s) = lerp (state_contraction s) (contractionTargetOf s) 0.1"
    by (simp_all add: drawGrowthScene_def Let_def p5_lerp_def)
  then show ?thesis by (simp add: lerp_distance)
qed

lemma runTicks_distance:
  "state_wind (runTicks pw ph f n s) - windTargetOf pw s = 0.95 ^ n * (state_wind s - windTargetOf pw s)
   \<and> verticalInfluence (runTicks pw ph f n s) - verticalTargetOf ph s
       = 0.9 ^ n * (verticalInfluence s - verticalTargetOf ph s)
   \<and> state_contraction (runTicks pw ph f n s) - contractionTargetOf s
       = 0.9 ^ n * (state_contraction s - contractionTargetOf s)"
proof (induction n arbitrary: f s)
  case 0
  then show ?case by simp
next
  case (Suc n)
  let ?s = "drawGrowthScene pw ph f s"
  show ?case
    using Suc.IH[of "f + 1" ?s] tick_targets[of pw ph f s] tick_distance[of pw ph f s]
    by simp
qed

lemma geometric_small:
  fixes a d e :: real
  assumes "0 \<le> a" and "a < 1" and "0 < e"
  shows "\<exists>N. \<forall>m\<ge>N. \<bar>a ^ m * d\<bar> < e"
proof -
  have "0 < e / (\<bar>d\<bar> + 1)" using assms(3) by simp
  then obtain N where N: "a ^ N < e / (\<bar>d\<bar> + 1)"
    using real_arch_pow_inv[OF _ assms(2)] by blast
  have "\<forall>m\<ge>N. \<bar>a ^ m * d\<bar> < e"
  proof (intro allI impI)
    fix m assume "N \<le> m"
    then have "a ^ m \<le> a ^ N" using assms(1,2) by (simp add: power_decreasing)
    then have "a ^ m < e / (\<bar>d\<bar> + 1)" using N by simp
    then have "a ^ m * (\<bar>d\<bar> + 1) < e" by (simp add: pos_less_divide_eq)
    moreover have "a ^ m * \<bar>d\<bar> \<le> a ^ m * (\<bar>d\<bar> + 1)"
      using assms(1) by (simp add: mult_left_mono)
    ultimately have "a ^ m * \<bar>d\<bar> < e" by simp
    then show "\<bar>a ^ m * d\<bar> < e" using assms(1) by (simp add: abs_mult)
  qed
  then show ?thesis by blast
qed

lemma runTicks_targets:
  "windTargetOf pw (runTicks pw ph f n s) = windTargetOf pw s
   \<and> verticalTargetOf ph (runTicks pw ph f n s) = verticalTargetOf ph s
   \<and> contractionTargetOf (runTicks pw ph f n s) = contractionTargetOf s"
proof (induction n arbitrary: f s)
  case 0
  then show ?case by simp
next
  case (Suc n)
  show ?case
    using Suc.IH[of "f + 1" "drawGrowthScene pw ph f s"] tick_targets[of pw ph f s] by simp
qed

lemma same_side:
  fixes a d :: real
  assumes "0 \<le> a"
  shows "0 \<le> (a ^ n * d) * d"
proof -
  have "(a ^ n * d) * d = a ^ n * (d * d)" by simp
  moreover have "0 \<le> a ^ n * (d * d)" using assms by simp
  ultimately show ?thesis by simp
qed

subsection \<open>Cap and fallback\<close>

lemma finalPoints_eq:
  "fst (finalPoints rnd sg st w h k) =
     (if length (fst (cappedPoints rnd sg st k)) < 50
      then fst (cappedPoints rnd sg st k)
           @ map (\<lambda>i. synthetic rnd w h (snd (cappedPoints rnd sg st k) + 2 * i)) [0..<120]
      else fst (cappedPoints rnd sg st k))"
proof -
  obtain pts k2 where c: "cappedPoints rnd sg st k = (pts, k2)" by (cases "cappedPoints rnd sg st k")
  then have "darkFallback rnd w h
            (capPoints rnd (maxPoints st) (fst (soilScan rnd sg st k), snd (snd (soilScan rnd sg st k))))
          = darkFallback rnd w h (pts, k2)"
    by (simp add: cappedPoints_def)
  then show ?thesis unfolding finalPoints_fst c by (simp add: darkFallback_eq)
qed

lemma cappedPoints_fst:
  "fst (cappedPoints rnd sg st k) =
     (if int (length (scanPoints rnd sg st k)) > maxPoints st
      then sliceTo (fst (shuffle rnd (scanPoints rnd sg st k, snd (snd (soilScan rnd sg st k))))) (maxPoints st)
      else scanPoints rnd sg st k)"
  by (simp add: cappedPoints_def scanPoints_def capPoints_fst)

lemma cappedPoints_length:
  assumes "0 \<le> maxPoints st"
  shows "length (fst (cappedPoints rnd sg st k)) = min (length (scanPoints rnd sg st k)) (nat (maxPoints st))"
  using assms by (auto simp: cappedPoints_fst sliceTo_length shuffle_length)

lemma zeros_dark:
  assumes "brightAt \<lparr> width = w, height = h, pixels = replicate n 0 \<rparr> x y = Some br"
  shows "br = 0"
  using assms by (auto simp: brightAt_def pixelAt_def Let_def split: option.splits if_splits)

lemma unitDraws_half: "unitDraws halfDraws"
  by (simp add: unitDraws_def halfDraws_def)

lemma synthetic_fields:
  "pt_n (synthetic rnd w h k) = 1 \<and> pt_b (synthetic rnd w h k) = 255 \<and> pt_z (synthetic rnd w h k) = 0
   \<and> pt_x (synthetic rnd w h k) = (rnd k - 0.5) * w \<and> pt_y (synthetic rnd w h k) = (rnd (k + 1) - 0.5) * h"
  by (simp add: synthetic_def)

lemma centred_draw:
  fixes r w :: real
  assumes "0 \<le> r" and "r < 1" and "0 \<le> w"
  shows "- (w / 2) \<le> (r - 0.5) * w \<and> (r - 0.5) * w \<le> w / 2"
proof -
  have "- (1 / 2) * w \<le> (r - 0.5) * w" using assms by (intro mult_right_mono) simp_all
  moreover have "(r - 0.5) * w \<le> (1 / 2) * w" using assms by (intro mult_right_mono) simp_all
  ultimately show ?thesis by simp
qed

lemma darkState_dark:
  "\<forall>x<width black720. \<forall>y<height black720. \<forall>br. brightAt black720 x y = Some br
      \<longrightarrow> br \<le> threshold (settings darkState)"
proof (intro allI impI)
  fix x y br
  assume "brightAt black720 x y = Some br"
  then have "br = 0" using zeros_dark[of 720 480 1382400 x y br] by (simp add: black720_def)
  then show "br \<le> threshold (settings darkState)"
    by (simp add: darkState_def initialState_def defaultSettings_def)
qed

lemma dark_finalPoints:
  assumes "\<forall>x<width sg. \<forall>y<height sg. \<forall>br. brightAt sg x y = Some br \<longrightarrow> br \<le> threshold st"
  shows "finalPoints rnd sg st w h k =
           (map (\<lambda>i. synthetic rnd w h (k + 2 * i)) [0..<120], 0, k + 240)"
proof -
  have scan: "soilScan rnd sg st k = ([], 0, k)" by (rule soilScan_dark[OF assms])
  show ?thesis
    by (simp add: finalPoints_def scan capPoints_def shuffle_def sliceTo_def darkFallback_eq)
qed

lemma final_length:
  assumes "sourceG s = Some sg"
  shows "length (soilPoints (fst (generateDigitalSoil rnd species p5frame s k))) =
           (if length (fst (cappedPoints rnd sg (settings s) k)) < 50
            then length (fst (cappedPoints rnd sg (settings s) k)) + 120
            else length (fst (cappedPoints rnd sg (settings s) k)))"
  unfolding generate_points[OF assms] finalPoints_eq by simp

lemma preview_eq:
  "recomputePreviewDots (Some sg) st old =
     (if length (pixels sg) = 0 then [] else take 4000 (previewScan sg st))"
  by (simp add: recomputePreviewDots_def Let_def)

lemma take_submset: "mset (take m xs) \<subseteq># mset xs"
proof -
  have "mset xs = mset (take m xs) + mset (drop m xs)"
    by (metis append_take_drop_id mset_append)
  then show ?thesis by simp
qed

lemma sliceTo_submset: "mset (sliceTo xs e) \<subseteq># mset xs"
  by (simp add: sliceTo_def take_submset)

lemma cappedPoints_submset:
  assumes "unitDraws rnd"
  shows "mset (fst (cappedPoints rnd sg st k)) \<subseteq># mset (scanPoints rnd sg st k)"
proof (cases "int (length (scanPoints rnd sg st k)) > maxPoints st")
  case True
  let ?sh = "fst (shuffle rnd (scanPoints rnd sg st k, snd (snd (soilScan rnd sg st k))))"
  have "mset (sliceTo ?sh (maxPoints st)) \<subseteq># mset ?sh" by (rule sliceTo_submset)
  moreover have "mset ?sh = mset (scanPoints rnd sg st k)" by (rule shuffle_mset[OF assms])
  ultimately have "mset (sliceTo ?sh (maxPoints st)) \<subseteq># mset (scanPoints rnd sg st k)" by simp
  then show ?thesis using True by (simp add: cappedPoints_fst)
next
  case False
  then show ?thesis by (simp add: cappedPoints_fst)
qed

subsection \<open>Retained points and dots\<close>

lemma previewBody_previewed:
  assumes "x < width sg" and "y < height sg" and "\<forall>d \<in> set dots. previewed sg st d"
  shows "\<forall>d \<in> set (previewBody sg st y x dots). previewed sg st d"
proof (cases "brightAt sg x y")
  case None
  then show ?thesis using assms(3) by (simp add: previewBody_def)
next
  case (Some br)
  show ?thesis
  proof (cases "br > threshold st \<and> \<not> (br - threshold st) / orOne (255 - threshold st) * dotSize st \<le> 0.3")
    case True
    let ?d = "\<lparr> dot_x = real x - real (width sg) / 2, dot_y = real y - real (height sg) / 2,
                 dot_size = (br - threshold st) / orOne (255 - threshold st) * dotSize st \<rparr>"
    have "previewed sg st ?d" unfolding previewed_def using assms(1,2) Some True by auto
    moreover have "previewBody sg st y x dots = dots @ [?d]"
      using Some True by (simp add: previewBody_def Let_def)
    ultimately show ?thesis using assms(3) by auto
  next
    case False
    then have "previewBody sg st y x dots = dots"
      using Some by (auto simp: previewBody_def Let_def)
    then show ?thesis using assms(3) by simp
  qed
qed

lemma previewScan_previewed: "\<forall>d \<in> set (previewScan sg st). previewed sg st d"
  unfolding previewScan_def
proof (rule forStep_invariant)
  show "\<forall>d\<in>set []. previewed sg st d" by simp
next
  fix y and t :: "PreviewDot list"
  assume y: "y < height sg" and t: "\<forall>d\<in>set t. previewed sg st d"
  show "\<forall>d\<in>set (forStep 0 (width sg) (spacing st) (previewBody sg st y) t). previewed sg st d"
  proof (rule forStep_invariant)
    show "\<forall>d\<in>set t. previewed sg st d" by (rule t)
  next
    fix x and u :: "PreviewDot list"
    assume x: "x < width sg" and u: "\<forall>d\<in>set u. previewed sg st d"
    show "\<forall>d\<in>set (previewBody sg st y x u). previewed sg st d"
      by (rule previewBody_previewed[OF x y u])
  qed
qed

lemma recompute_previewed:
  "\<forall>d \<in> set (recomputePreviewDots (Some sg) st old). previewed sg st d"
proof
  fix d assume "d \<in> set (recomputePreviewDots (Some sg) st old)"
  then have "d \<in> set (previewScan sg st)"
    using set_take_subset[of 4000 "previewScan sg st"]
    by (auto simp: recomputePreviewDots_def Let_def split: if_splits)
  then show "previewed sg st d" using previewScan_previewed by blast
qed

text \<open>The normalized intensity of a luminance above a threshold in [0, 255].\<close>

lemma normalized_facts:
  fixes br thr :: real
  assumes "0 \<le> thr" and "thr < br" and "br \<le> 255"
  shows "orOne (255 - thr) = 255 - thr"
    and "0 < (br - thr) / (255 - thr)"
    and "(br - thr) / (255 - thr) \<le> 1"
    and "thr \<le> 254 \<Longrightarrow> max 1 (255 - thr) = 255 - thr"
proof -
  have pos: "0 < 255 - thr" using assms by simp
  show "orOne (255 - thr) = 255 - thr" using pos by (simp add: orOne_def)
  show "0 < (br - thr) / (255 - thr)" using pos assms(2) by simp
  show "(br - thr) / (255 - thr) \<le> 1" using pos assms(3) by simp
  show "thr \<le> 254 \<Longrightarrow> max 1 (255 - thr) = 255 - thr" by simp
qed

lemma normalized_strict_mono:
  fixes b1 b2 thr :: real
  assumes "thr < 255" and "b1 < b2"
  shows "(b1 - thr) / (255 - thr) < (b2 - thr) / (255 - thr)"
  using assms by (simp add: divide_strict_right_mono)

lemma scanned_facts:
  assumes "0 \<le> thr" and "thr \<le> 255" and "scanned sg thr p"
  shows "(\<exists>x<width sg. \<exists>y<height sg. brightAt sg x y = Some (pt_b p))
       \<and> thr < pt_b p \<and> pt_b p \<le> 255
       \<and> pt_n p = (pt_b p - thr) / (255 - thr)
       \<and> (thr \<le> 254 \<longrightarrow> pt_n p = (pt_b p - thr) / max 1 (255 - thr))
       \<and> 0 < pt_n p \<and> pt_n p \<le> 1"
proof -
  obtain x y where x: "x < width sg" and y: "y < height sg"
    and b: "brightAt sg x y = Some (pt_b p)" and gt: "thr < pt_b p"
    and n: "pt_n p = (pt_b p - thr) / orOne (255 - thr)"
    using assms(3) unfolding scanned_def by blast
  have le: "pt_b p \<le> 255" using brightAt_range[OF b] by simp
  note nf = normalized_facts[OF assms(1) gt le]
  have n': "pt_n p = (pt_b p - thr) / (255 - thr)" using n nf(1) by simp
  have "\<exists>x<width sg. \<exists>y<height sg. brightAt sg x y = Some (pt_b p)" using x y b by blast
  moreover have "thr \<le> 254 \<longrightarrow> pt_n p = (pt_b p - thr) / max 1 (255 - thr)"
    using n' nf(4) by simp
  ultimately show ?thesis using gt le n' nf(2,3) by simp
qed

subsection \<open>The spawner\<close>

lemma setupCreatures_length:
  "length (fst (setupCreatures rnd points behavior species k)) =
     length (fst (spawnIndices rnd (length points) behavior k))"
  using arg_cong[OF setupCreatures_places[of rnd points behavior species k], of length]
  by simp

lemma plantCount_eq:
  "plantCount len behavior =
     \<lfloor>real_of_int \<lfloor>mapRange (real len) 50 1200 30 160\<rfloor> * densityFactor behavior\<rfloor>"
  by (simp add: plantCount_def Let_def)

lemma take_min_length: "take (min (length xs) m) xs = take m xs"
  by (cases "m \<le> length xs") (simp_all add: min_def)

lemma dark_plantCount:
  "plantCount 120 (behaviorOf defaultSettings a) = 44
   \<and> \<lfloor>mapRange (real 120) 50 1200 30 160 * densityFactor (behaviorOf defaultSettings a)\<rfloor> = 45"
  by (simp add: plantCount_def behaviorOf_def defaultSettings_def mapRange_def Let_def)

lemma setupCreatures_count:
  assumes "unitDraws rnd"
  shows "int (length (fst (setupCreatures rnd points behavior species k)))
           = max 0 (min (plantCount (length points) behavior) (int (length points)))"
  using spawnIndices_props(3)[OF assms, of "length points" behavior k]
  by (simp add: setupCreatures_length)

subsection \<open>Counting the rounds of the scan\<close>

lemma stepOf_pos: "0 < stepOf sp"
  by (simp add: stepOf_def)

lemma rounds_step:
  fixes st :: nat
  assumes "0 < st" and "i < bound"
  shows "(bound - i + st - 1) div st = Suc ((bound - (i + st) + st - 1) div st)"
proof (cases "i + st \<le> bound")
  case True
  then have "bound - i + st - 1 = (bound - (i + st) + st - 1) + st" using assms by linarith
  then have "(bound - i + st - 1) div st = ((bound - (i + st) + st - 1) + st) div st"
    by (simp only:)
  also have "\<dots> = (bound - (i + st) + st - 1) div st + 1"
    using assms(1) by (intro div_add_self2) simp
  finally show ?thesis by simp
next
  case False
  then have "bound - (i + st) + st - 1 = st - 1" by simp
  moreover have "(st - 1) div st = 0" using assms(1) by simp
  moreover have "st \<le> bound - i + st - 1" using assms by simp
  moreover have "bound - i + st - 1 < 2 * st" using False assms by simp
  ultimately show ?thesis
    by (metis One_nat_def Suc_1 div_nat_eqI mult.commute mult_Suc_right nat_mult_1_right)
qed

lemma forStep_sum:
  fixes m :: "'s \<Rightarrow> real"
  assumes "\<And>j t. j < bound \<Longrightarrow> m (body j t) = m t + c"
  shows "m (forStep i bound sp body s) = m s + c * real ((bound - i + stepOf sp - 1) div stepOf sp)"
  using assms
proof (induction i bound sp body s rule: forStep.induct)
  case (1 i bound sp body s)
  show ?case
  proof (cases "i < bound")
    case True
    have u: "forStep i bound sp body s = forStep (i + stepOf sp) bound sp body (body i s)"
      using True forStep.simps[of i bound sp body s] by simp
    have "m (forStep (i + stepOf sp) bound sp body (body i s))
        = m (body i s) + c * real ((bound - (i + stepOf sp) + stepOf sp - 1) div stepOf sp)"
      using "1.IH"[OF True] "1.prems" by simp
    moreover have "m (body i s) = m s + c" using "1.prems" True by simp
    moreover have "(bound - i + stepOf sp - 1) div stepOf sp
        = Suc ((bound - (i + stepOf sp) + stepOf sp - 1) div stepOf sp)"
      using rounds_step[OF stepOf_pos True] by simp
    ultimately show ?thesis unfolding u by (simp add: algebra_simps)
  next
    case False
    then have u: "forStep i bound sp body s = s"
      using forStep.simps[of i bound sp body s] by simp
    have "bound - i + stepOf sp - 1 < stepOf sp" using False stepOf_pos[of sp] by simp
    then show ?thesis unfolding u by simp
  qed
qed

lemma scanBody_bright:
  assumes "brightAt sg x y = Some br" and "thr < br"
  shows "length (fst (scanBody rnd sg thr y x t)) = Suc (length (fst t))"
    and "fst (snd (scanBody rnd sg thr y x t)) = fst (snd t) + (br - thr) / orOne (255 - thr)"
  using assms by (cases t; simp add: scanBody_def Let_def)+

lemma uniform_scan:
  assumes u: "\<forall>x<width sg. \<forall>y<height sg. brightAt sg x y = Some br"
    and gt: "threshold st < br"
  shows "real (length (fst (soilScan rnd sg st k)))
           = real (gridCount (width sg) (spacing st)) * real (gridCount (height sg) (spacing st))"
    and "fst (snd (soilScan rnd sg st k))
           = (br - threshold st) / orOne (255 - threshold st)
             * real (gridCount (width sg) (spacing st)) * real (gridCount (height sg) (spacing st))"
proof -
  let ?n = "(br - threshold st) / orOne (255 - threshold st)"
  let ?row = "\<lambda>y. forStep 0 (width sg) (spacing st) (scanBody rnd sg (threshold st) y)"
  have rowlen: "real (length (fst (?row y t)))
      = real (length (fst t)) + 1 * real (gridCount (width sg) (spacing st))"
    if y: "y < height sg" for y and t :: "SoilPoint list \<times> real \<times> nat"
  proof -
    have "real (length (fst (?row y t)))
        = real (length (fst t)) + 1 * real ((width sg - 0 + stepOf (spacing st) - 1) div stepOf (spacing st))"
    proof (rule forStep_sum)
      fix j and v :: "SoilPoint list \<times> real \<times> nat"
      assume "j < width sg"
      then have "brightAt sg j y = Some br" using u y by blast
      then show "real (length (fst (scanBody rnd sg (threshold st) y j v))) = real (length (fst v)) + 1"
        using scanBody_bright(1)[OF _ gt] by simp
    qed
    then show ?thesis by (simp add: gridCount_def)
  qed
  have rowsum: "fst (snd (?row y t)) = fst (snd t) + ?n * real (gridCount (width sg) (spacing st))"
    if y: "y < height sg" for y and t :: "SoilPoint list \<times> real \<times> nat"
  proof -
    have "fst (snd (?row y t))
        = fst (snd t) + ?n * real ((width sg - 0 + stepOf (spacing st) - 1) div stepOf (spacing st))"
    proof (rule forStep_sum)
      fix j and v :: "SoilPoint list \<times> real \<times> nat"
      assume "j < width sg"
      then have "brightAt sg j y = Some br" using u y by blast
      then show "fst (snd (scanBody rnd sg (threshold st) y j v)) = fst (snd v) + ?n"
        using scanBody_bright(2)[OF _ gt] by simp
    qed
    then show ?thesis by (simp add: gridCount_def)
  qed
  have "real (length (fst (forStep 0 (height sg) (spacing st) ?row ([], 0, k))))
      = real (length (fst (([], 0, k) :: SoilPoint list \<times> real \<times> nat)))
        + (1 * real (gridCount (width sg) (spacing st)))
          * real ((height sg - 0 + stepOf (spacing st) - 1) div stepOf (spacing st))"
    by (rule forStep_sum) (rule rowlen)
  then show "real (length (fst (soilScan rnd sg st k)))
           = real (gridCount (width sg) (spacing st)) * real (gridCount (height sg) (spacing st))"
    by (simp add: soilScan_def gridCount_def)
  have "fst (snd (forStep 0 (height sg) (spacing st) ?row ([], 0, k)))
      = fst (snd (([], 0, k) :: SoilPoint list \<times> real \<times> nat))
        + (?n * real (gridCount (width sg) (spacing st)))
          * real ((height sg - 0 + stepOf (spacing st) - 1) div stepOf (spacing st))"
    by (rule forStep_sum) (rule rowsum)
  then show "fst (snd (soilScan rnd sg st k))
           = ?n * real (gridCount (width sg) (spacing st)) * real (gridCount (height sg) (spacing st))"
    by (simp add: soilScan_def gridCount_def)
qed

lemma white720_bright: "\<forall>x<width white720. \<forall>y<height white720. brightAt white720 x y = Some 255"
  by (simp add: white720_def brightAt_def pixelAt_def Let_def)

lemma white_scan:
  "length (scanPoints halfDraws white720 (settings whiteState) k) = 21600"
  "fst (snd (soilScan halfDraws white720 (settings whiteState) k)) = 21600"
proof -
  have gt: "threshold (settings whiteState) < 255"
    by (simp add: whiteState_def initialState_def defaultSettings_def)
  have g: "gridCount (width white720) (spacing (settings whiteState)) = 180"
    "gridCount (height white720) (spacing (settings whiteState)) = 120"
    by (simp_all add: gridCount_def stepOf_def white720_def whiteState_def initialState_def
        defaultSettings_def)
  have "real (length (fst (soilScan halfDraws white720 (settings whiteState) k))) = real 21600"
    using uniform_scan(1)[OF white720_bright gt, of halfDraws k] unfolding g by simp
  then show "length (scanPoints halfDraws white720 (settings whiteState) k) = 21600"
    unfolding scanPoints_def by (simp only: of_nat_eq_iff)
  show "fst (snd (soilScan halfDraws white720 (settings whiteState) k)) = 21600"
    using uniform_scan(2)[OF white720_bright gt, of halfDraws k] unfolding g
    by (simp add: orOne_def whiteState_def initialState_def defaultSettings_def)
qed

lemma generate_average:
  assumes "sourceG s = Some sg"
  shows "avgBrightness (soilBehavior (fst (generateDigitalSoil rnd species p5frame s k))) =
           (if length (soilPoints (fst (generateDigitalSoil rnd species p5frame s k))) > 0
            then fst (snd (soilScan rnd sg (settings s) k))
                 / real (length (soilPoints (fst (generateDigitalSoil rnd species p5frame s k))))
            else 0.5)"
proof -
  obtain pts bs k1 where fp: "finalPoints rnd sg (settings s) (imgW s) (imgH s) k = (pts, bs, k1)"
    by (cases "finalPoints rnd sg (settings s) (imgW s) (imgH s) k") auto
  have p: "soilPoints (fst (generateDigitalSoil rnd species p5frame s k)) = pts"
    using generate_points[OF assms, of rnd species p5frame k] fp by simp
  have b: "fst (snd (soilScan rnd sg (settings s) k)) = bs"
    using finalPoints_sum[of rnd sg "settings s" "imgW s" "imgH s" k] fp by simp
  show ?thesis unfolding p b generate_behavior[OF assms fp] by (simp add: behaviorOf_def)
qed

lemma sum_of_ones:
  assumes "\<forall>p \<in> set ps. pt_n p = 1"
  shows "sum_list (map pt_n ps) = real (length ps)"
  using assms by (induction ps) simp_all

subsection \<open>Generation on the black and on the white image\<close>

lemma dark_generation:
  "soilPoints (fst (generateDigitalSoil halfDraws torus None darkState 0))
     = map (\<lambda>i. synthetic halfDraws 720 480 (2 * i)) [0..<120]"
  "avgBrightness (soilBehavior (fst (generateDigitalSoil halfDraws torus None darkState 0))) = 0"
  "length (creatures (fst (generateDigitalSoil halfDraws torus None darkState 0))) = 44"
  "densityFactor (soilBehavior (fst (generateDigitalSoil halfDraws torus None darkState 0))) = 109 / 90"
proof -
  let ?G = "fst (generateDigitalSoil halfDraws torus None darkState 0)"
  let ?pts = "map (\<lambda>i. synthetic halfDraws 720 480 (2 * i)) [0..<120]"
  have sg: "sourceG darkState = Some black720" by (simp add: darkState_def)
  have st: "settings darkState = defaultSettings" by (simp add: darkState_def initialState_def)
  have wh: "imgW darkState = 720" "imgH darkState = 480" by (simp_all add: darkState_def)
  have fp: "finalPoints halfDraws black720 (settings darkState) (imgW darkState) (imgH darkState) 0
      = (?pts, 0, 240)"
    using dark_finalPoints[OF darkState_dark, of halfDraws "imgW darkState" "imgH darkState" 0]
    unfolding wh by simp
  show p: "soilPoints ?G = ?pts"
    using generate_points[OF sg, of halfDraws torus None 0] fp by simp
  have beh: "soilBehavior ?G = behaviorOf defaultSettings 0"
    using generate_behavior[OF sg fp, of torus None] st by simp
  show "avgBrightness (soilBehavior ?G) = 0" unfolding beh by (simp add: behaviorOf_def)
  show "densityFactor (soilBehavior ?G) = 109 / 90"
    unfolding beh by (simp add: behaviorOf_def defaultSettings_def mapRange_def)
  have "creatures ?G = fst (setupCreatures halfDraws ?pts (behaviorOf defaultSettings 0) torus 240)"
    using generate_creatures[OF sg fp, of torus None] st by simp
  then have "int (length (creatures ?G)) = max 0 (min (plantCount 120 (behaviorOf defaultSettings 0)) 120)"
    using setupCreatures_count[OF unitDraws_half, of ?pts "behaviorOf defaultSettings 0" torus 240]
    by simp
  then show "length (creatures ?G) = 44" using dark_plantCount[of 0] by simp
qed

lemma synthetic_ones:
  "sum_list (map pt_n (map (\<lambda>i. synthetic rnd w h (k + 2 * i)) [0..<m])) = real m"
  by (induction m) (simp_all add: synthetic_def)

lemma white_generation:
  "length (soilPoints (fst (generateDigitalSoil halfDraws torus None whiteState 0))) = 2000"
  "avgBrightness (soilBehavior (fst (generateDigitalSoil halfDraws torus None whiteState 0))) = 54 / 5"
  "sum_list (map pt_n (soilPoints (fst (generateDigitalSoil halfDraws torus None whiteState 0)))) = 2000"
proof -
  let ?G = "fst (generateDigitalSoil halfDraws torus None whiteState 0)"
  let ?st = "settings whiteState"
  have sg: "sourceG whiteState = Some white720" by (simp add: whiteState_def)
  have mx: "maxPoints ?st = 2000" and thr: "threshold ?st = 100"
    by (simp_all add: whiteState_def initialState_def defaultSettings_def)
  have cl: "length (fst (cappedPoints halfDraws white720 ?st 0)) = 2000"
    using cappedPoints_length[of ?st halfDraws white720 0] white_scan(1)[of 0] mx by simp
  show len: "length (soilPoints ?G) = 2000"
    using final_length[OF sg, of halfDraws torus None 0] cl by simp
  show "avgBrightness (soilBehavior ?G) = 54 / 5"
    using generate_average[OF sg, of halfDraws torus None 0] len white_scan(2)[of 0] by simp
  have fin: "soilPoints ?G = fst (cappedPoints halfDraws white720 ?st 0)"
    using generate_points[OF sg, of halfDraws torus None 0] cl
      finalPoints_eq[of halfDraws white720 ?st "imgW whiteState" "imgH whiteState" 0]
    by simp
  have "\<forall>p \<in> set (soilPoints ?G). pt_n p = 1"
  proof
    fix p assume "p \<in> set (soilPoints ?G)"
    then have "p \<in># mset (fst (cappedPoints halfDraws white720 ?st 0))" using fin by simp
    then have "p \<in># mset (scanPoints halfDraws white720 ?st 0)"
      by (rule mset_subset_eqD[OF cappedPoints_submset[OF unitDraws_half, of white720 ?st 0]])
    then have "scanned white720 (threshold ?st) p"
      using soilScan_scanned[of halfDraws white720 ?st 0] by (simp add: scanPoints_def)
    then obtain x y where "x < width white720" "y < height white720"
      and b: "brightAt white720 x y = Some (pt_b p)"
      and n: "pt_n p = (pt_b p - threshold ?st) / orOne (255 - threshold ?st)"
      unfolding scanned_def by blast
    then have "pt_b p = 255" using white720_bright by simp
    then show "pt_n p = 1" using n thr by (simp add: orOne_def)
  qed
  then show "sum_list (map pt_n (soilPoints ?G)) = 2000"
    using sum_of_ones[of "soilPoints ?G"] len by simp
qed

subsection \<open>The shuffle as a function of its swap partners\<close>

lemma validChoices_0: "validChoices 0 js = (js = [])"
  by (simp add: validChoices_def)

lemma validChoices_Suc:
  "validChoices (Suc i) js = (\<exists>j t. js = j # t \<and> j \<le> Suc i \<and> validChoices i t)"
proof
  assume v: "validChoices (Suc i) js"
  then obtain j t where js: "js = j # t" by (cases js) (auto simp: validChoices_def)
  have "j \<le> Suc i" using v js by (auto simp: validChoices_def)
  moreover have "validChoices i t"
    unfolding validChoices_def
  proof (intro conjI allI impI)
    show "length t = i" using v js by (simp add: validChoices_def)
    fix m assume "m < i"
    then have "Suc m < Suc i" by simp
    then have "js ! Suc m \<le> Suc i - Suc m" using v unfolding validChoices_def by blast
    then show "t ! m \<le> i - m" using js by simp
  qed
  ultimately show "\<exists>j t. js = j # t \<and> j \<le> Suc i \<and> validChoices i t" using js by blast
next
  assume "\<exists>j t. js = j # t \<and> j \<le> Suc i \<and> validChoices i t"
  then obtain j t where js: "js = j # t" and j: "j \<le> Suc i" and t: "validChoices i t" by blast
  show "validChoices (Suc i) js"
    unfolding validChoices_def
  proof (intro conjI allI impI)
    show "length js = Suc i" using js t by (simp add: validChoices_def)
    fix m assume m: "m < Suc i"
    show "js ! m \<le> Suc i - m"
    proof (cases m)
      case 0
      then show ?thesis using js j by simp
    next
      case (Suc m')
      then have "t ! m' \<le> i - m'" using t m by (simp add: validChoices_def)
      then show ?thesis using js Suc by simp
    qed
  qed
qed

lemma shuffleChoices_Suc:
  "shuffleChoices rnd k (Suc i) = nat \<lfloor>rnd k * real (Suc i + 1)\<rfloor> # shuffleChoices rnd (k + 1) i"
proof -
  have "[0..<Suc i] = 0 # map Suc [0..<i]" by (simp add: upt_conv_Cons map_Suc_upt del: upt_Suc)
  then show ?thesis by (simp add: shuffleChoices_def del: upt_Suc)
qed

lemma shuffleLoop_swaps:
  "fst (shuffleLoop rnd i (xs, k)) = swapsFrom i (shuffleChoices rnd k i) xs"
proof (induction i arbitrary: xs k)
  case 0
  then show ?case by simp
next
  case (Suc i)
  show ?case
    using Suc.IH[of "xs[Suc i := xs ! nat \<lfloor>rnd k * real (Suc i + 1)\<rfloor>,
                        nat \<lfloor>rnd k * real (Suc i + 1)\<rfloor> := xs ! Suc i]" "k + 1"]
    by (simp add: shuffleChoices_Suc Let_def)
qed

lemma shuffleChoices_valid:
  assumes "unitDraws rnd"
  shows "validChoices i (shuffleChoices rnd k i)"
  unfolding validChoices_def
proof (intro conjI allI impI)
  show "length (shuffleChoices rnd k i) = i" by (simp add: shuffleChoices_def)
  fix m assume m: "m < i"
  have "nat \<lfloor>rnd (k + m) * real (Suc (i - m))\<rfloor> \<le> i - m"
    using assms by (intro draw_index_le) (simp_all add: unitDraws_def)
  then show "shuffleChoices rnd k i ! m \<le> i - m" using m by (simp add: shuffleChoices_def)
qed

lemma swapsFrom_length: "length (swapsFrom i js xs) = length xs"
  by (induction i js xs rule: swapsFrom.induct) simp_all

lemma swapsFrom_above:
  "validChoices i js \<Longrightarrow> i < p \<Longrightarrow> swapsFrom i js xs ! p = xs ! p"
proof (induction i arbitrary: js xs)
  case 0
  then show ?case by (simp add: validChoices_0)
next
  case (Suc i)
  obtain j t where js: "js = j # t" and j: "j \<le> Suc i" and t: "validChoices i t"
    using Suc.prems(1) validChoices_Suc by blast
  let ?ys = "xs[Suc i := xs ! j, j := xs ! Suc i]"
  have "swapsFrom i t ?ys ! p = ?ys ! p" using Suc.IH[OF t] Suc.prems(2) by simp
  moreover have "?ys ! p = xs ! p" using j Suc.prems(2) by simp
  ultimately show ?case using js by simp
qed

lemma swap_top:
  assumes "Suc i < length xs" and "j \<le> Suc i"
  shows "(xs[Suc i := xs ! j, j := xs ! Suc i]) ! Suc i = xs ! j"
proof (cases "j = Suc i")
  case True
  then show ?thesis using assms by simp
next
  case False
  then show ?thesis using assms by simp
qed

lemma swapsFrom_top:
  assumes "validChoices i t" and "j \<le> Suc i" and "Suc i < length xs"
  shows "swapsFrom (Suc i) (j # t) xs ! Suc i = xs ! j"
proof -
  let ?ys = "xs[Suc i := xs ! j, j := xs ! Suc i]"
  have "swapsFrom i t ?ys ! Suc i = ?ys ! Suc i"
    by (rule swapsFrom_above[OF assms(1)]) simp
  then show ?thesis using swap_top[OF assms(3,2)] by simp
qed

lemma swapsFrom_mset:
  "validChoices i js \<Longrightarrow> i < length xs \<Longrightarrow> mset (swapsFrom i js xs) = mset xs"
proof (induction i arbitrary: js xs)
  case 0
  then show ?case by (simp add: validChoices_0)
next
  case (Suc i)
  obtain j t where js: "js = j # t" and j: "j \<le> Suc i" and t: "validChoices i t"
    using Suc.prems(1) validChoices_Suc by blast
  let ?ys = "xs[Suc i := xs ! j, j := xs ! Suc i]"
  have "mset ?ys = mset xs" using Suc.prems(2) j by (simp add: mset_swap)
  moreover have "mset (swapsFrom i t ?ys) = mset ?ys" using Suc.IH[OF t] Suc.prems(2) by simp
  ultimately show ?case using js by simp
qed

lemma swapsFrom_inj:
  "distinct xs \<Longrightarrow> i < length xs \<Longrightarrow> validChoices i js \<Longrightarrow> validChoices i js'
     \<Longrightarrow> swapsFrom i js xs = swapsFrom i js' xs \<Longrightarrow> js = js'"
proof (induction i arbitrary: js js' xs)
  case 0
  then show ?case by (simp add: validChoices_0)
next
  case (Suc i)
  obtain j t where js: "js = j # t" and j: "j \<le> Suc i" and t: "validChoices i t"
    using Suc.prems(3) validChoices_Suc by blast
  obtain j' t' where js': "js' = j' # t'" and j': "j' \<le> Suc i" and t': "validChoices i t'"
    using Suc.prems(4) validChoices_Suc by blast
  have "swapsFrom (Suc i) (j # t) xs ! Suc i = xs ! j"
    by (rule swapsFrom_top[OF t j Suc.prems(2)])
  moreover have "swapsFrom (Suc i) (j' # t') xs ! Suc i = xs ! j'"
    by (rule swapsFrom_top[OF t' j' Suc.prems(2)])
  ultimately have "xs ! j = xs ! j'" using Suc.prems(5) js js' by simp
  then have jj: "j = j'"
    using Suc.prems(1,2) j j' by (simp add: nth_eq_iff_index_eq)
  let ?ys = "xs[Suc i := xs ! j, j := xs ! Suc i]"
  have d: "distinct ?ys" using Suc.prems(1,2) j by (simp add: distinct_swap)
  have "swapsFrom i t ?ys = swapsFrom i t' ?ys" using Suc.prems(5) js js' jj by simp
  then have "t = t'" using Suc.IH[OF d _ t t'] Suc.prems(2) by simp
  then show ?case using js js' jj by simp
qed

lemma head_determined:
  assumes "mset p = mset xs" and "0 < length xs" and "\<forall>q. 0 < q \<longrightarrow> q < length xs \<longrightarrow> p ! q = xs ! q"
  shows "p = xs"
proof -
  have len: "length p = length xs" using assms(1) by (rule mset_eq_length)
  obtain a r where p: "p = a # r" using len assms(2) by (cases p) auto
  obtain b u where xs: "xs = b # u" using assms(2) by (cases xs) auto
  have "r = u"
  proof (rule nth_equalityI)
    show "length r = length u" using len p xs by simp
    fix q assume "q < length r"
    then have "Suc q < length xs" using len p by simp
    then have "p ! Suc q = xs ! Suc q" using assms(3) by blast
    then show "r ! q = u ! q" using p xs by simp
  qed
  then have "a = b" using assms(1) p xs by simp
  then show ?thesis using p xs \<open>r = u\<close> by simp
qed

lemma swapsFrom_reach:
  "distinct xs \<Longrightarrow> i < length xs \<Longrightarrow> mset p = mset xs
     \<Longrightarrow> \<forall>q. i < q \<longrightarrow> q < length xs \<longrightarrow> p ! q = xs ! q
     \<Longrightarrow> \<exists>js. validChoices i js \<and> swapsFrom i js xs = p"
proof (induction i arbitrary: xs)
  case 0
  then have "p = xs" using head_determined by blast
  then show ?case by (simp add: validChoices_0)
next
  case (Suc i)
  have len: "length p = length xs" using Suc.prems(3) by (rule mset_eq_length)
  have dp: "distinct p" using Suc.prems(1,3) mset_eq_imp_distinct_iff by blast
  have "p ! Suc i \<in> set p" using Suc.prems(2) len by simp
  then have "p ! Suc i \<in> set xs" using Suc.prems(3) mset_eq_setD by blast
  then obtain j where jl: "j < length xs" and xj: "xs ! j = p ! Suc i"
    by (auto simp: in_set_conv_nth)
  have j: "j \<le> Suc i"
  proof (rule ccontr)
    assume "\<not> j \<le> Suc i"
    then have g: "Suc i < j" by simp
    then have "p ! j = xs ! j" using Suc.prems(4) jl by simp
    then have "p ! j = p ! Suc i" using xj by simp
    then have "j = Suc i" using dp jl len Suc.prems(2) by (simp add: nth_eq_iff_index_eq)
    then show False using g by simp
  qed
  let ?ys = "xs[Suc i := xs ! j, j := xs ! Suc i]"
  have d: "distinct ?ys" using Suc.prems(1,2) j by (simp add: distinct_swap)
  have m: "mset p = mset ?ys" using Suc.prems(2,3) j by (simp add: mset_swap)
  have l: "i < length ?ys" using Suc.prems(2) by simp
  have a: "\<forall>q. i < q \<longrightarrow> q < length ?ys \<longrightarrow> p ! q = ?ys ! q"
  proof (intro allI impI)
    fix q assume q: "i < q" and ql: "q < length ?ys"
    show "p ! q = ?ys ! q"
    proof (cases "q = Suc i")
      case True
      then show ?thesis using swap_top[OF Suc.prems(2) j] xj by simp
    next
      case False
      then have "Suc i < q" using q by simp
      then have "?ys ! q = xs ! q" using j by simp
      moreover have "p ! q = xs ! q" using Suc.prems(4) \<open>Suc i < q\<close> ql by simp
      ultimately show ?thesis by simp
    qed
  qed
  obtain t where t: "validChoices i t" and r: "swapsFrom i t ?ys = p"
    using Suc.IH[OF d l m a] by blast
  have "validChoices (Suc i) (j # t)" using validChoices_Suc j t by blast
  moreover have "swapsFrom (Suc i) (j # t) xs = p" using r by simp
  ultimately show ?case by blast
qed

lemma shuffle_swaps:
  "fst (shuffle rnd (xs, k)) = swapsFrom (length xs - 1) (shuffleChoices rnd k (length xs - 1)) xs"
  by (simp add: shuffle_def shuffleLoop_swaps)

lemma permutation_unique_choices:
  assumes "mset p = mset [0..<n]"
  shows "\<exists>!js. validChoices (n - 1) js \<and> swapsFrom (n - 1) js [0..<n] = p"
proof (cases n)
  case 0
  then have "p = []" using assms by simp
  then show ?thesis using 0 by (auto simp: validChoices_0)
next
  case (Suc n')
  have i: "n - 1 < length [0..<n]" using Suc by simp
  have "\<exists>js. validChoices (n - 1) js \<and> swapsFrom (n - 1) js [0..<n] = p"
  proof (rule swapsFrom_reach[OF distinct_upt i assms], intro allI impI)
    fix q assume "n - 1 < q" and "q < length [0..<n]"
    then have False by simp
    then show "p ! q = [0..<n] ! q" ..
  qed
  then obtain js where js: "validChoices (n - 1) js" "swapsFrom (n - 1) js [0..<n] = p" by blast
  show ?thesis
  proof (rule ex1I[of _ js])
    show "validChoices (n - 1) js \<and> swapsFrom (n - 1) js [0..<n] = p" using js by simp
  next
    fix js' assume a: "validChoices (n - 1) js' \<and> swapsFrom (n - 1) js' [0..<n] = p"
    have "swapsFrom (n - 1) js' [0..<n] = swapsFrom (n - 1) js [0..<n]" using a js(2) by simp
    then show "js' = js"
      using swapsFrom_inj[OF distinct_upt i _ js(1), of js'] a by blast
  qed
qed

lemma choices_realised:
  assumes "validChoices i js"
  shows "\<exists>rnd. unitDraws rnd \<and> shuffleChoices rnd k i = js"
proof -
  let ?rnd = "\<lambda>q. if k \<le> q \<and> q < k + i
                   then real (js ! (q - k)) / real (i - (q - k) + 1) else 0"
  have len: "length js = i" and le: "\<And>m. m < i \<Longrightarrow> js ! m \<le> i - m"
    using assms by (simp_all add: validChoices_def)
  have u: "unitDraws ?rnd"
    unfolding unitDraws_def
  proof (intro allI)
    fix q
    show "0 \<le> ?rnd q \<and> ?rnd q < 1"
    proof (cases "k \<le> q \<and> q < k + i")
      case True
      then have "q - k < i" by linarith
      then have "js ! (q - k) \<le> i - (q - k)" by (rule le)
      then have "real (js ! (q - k)) < real (i - (q - k) + 1)" by simp
      then show ?thesis using True by simp
    next
      case False
      then show ?thesis by auto
    qed
  qed
  have "shuffleChoices ?rnd k i = js"
  proof (rule nth_equalityI)
    show "length (shuffleChoices ?rnd k i) = length js" using len by (simp add: shuffleChoices_def)
    fix m assume "m < length (shuffleChoices ?rnd k i)"
    then have m: "m < i" by (simp add: shuffleChoices_def)
    have "real (js ! m) / real (i - m + 1) * real (i - m + 1) = real (js ! m)" by simp
    then have "nat \<lfloor>?rnd (k + m) * real (i - m + 1)\<rfloor> = js ! m" using m by simp
    then show "shuffleChoices ?rnd k i ! m = js ! m" using m by (simp add: shuffleChoices_def)
  qed
  then show ?thesis using u by blast
qed

lemma draw_interval:
  fixes r :: real
  assumes "0 \<le> r"
  shows "(nat \<lfloor>r * real (Suc i)\<rfloor> = j)
       = (real j / real (Suc i) \<le> r \<and> r < real (Suc j) / real (Suc i))"
proof -
  have nn: "0 \<le> r * real (Suc i)" using assms by simp
  have "(nat \<lfloor>r * real (Suc i)\<rfloor> = j) = (\<lfloor>r * real (Suc i)\<rfloor> = int j)"
    using nn by (auto simp: nat_eq_iff)
  also have "\<dots> = (real j \<le> r * real (Suc i) \<and> r * real (Suc i) < real j + 1)"
    by (simp add: floor_eq_iff)
  also have "\<dots> = (real j / real (Suc i) \<le> r \<and> r < real (Suc j) / real (Suc i))"
    by (simp add: pos_divide_le_eq pos_less_divide_eq add.commute)
  finally show ?thesis .
qed

lemma choice_interval:
  assumes "m < i" and "0 \<le> rnd (k + m)"
  shows "(shuffleChoices rnd k i ! m = j)
       = (real j / real (i - m + 1) \<le> rnd (k + m) \<and> rnd (k + m) < real (j + 1) / real (i - m + 1))"
  using draw_interval[OF assms(2), of "i - m" j] assms(1) by (simp add: shuffleChoices_def)

lemma swapsFrom_map:
  "validChoices i js \<Longrightarrow> i < length xs
     \<Longrightarrow> swapsFrom i js (map f xs) = map f (swapsFrom i js xs)"
proof (induction i arbitrary: js xs)
  case 0
  then show ?case by (simp add: validChoices_0)
next
  case (Suc i)
  obtain j t where js: "js = j # t" and j: "j \<le> Suc i" and t: "validChoices i t"
    using Suc.prems(1) validChoices_Suc by blast
  let ?ys = "xs[Suc i := xs ! j, j := xs ! Suc i]"
  have "(map f xs)[Suc i := map f xs ! j, j := map f xs ! Suc i] = map f ?ys"
    using Suc.prems(2) j by (simp add: map_update)
  moreover have "swapsFrom i t (map f ?ys) = map f (swapsFrom i t ?ys)"
    using Suc.IH[OF t, of ?ys] Suc.prems(2) by simp
  ultimately show ?case using js by simp
qed

lemma shuffle_by_indices:
  assumes "unitDraws rnd"
  shows "fst (shuffle rnd (xs, k)) = map ((!) xs) (fst (shuffle rnd ([0..<length xs], k)))"
proof (cases xs)
  case Nil
  then show ?thesis by (simp add: shuffle_def)
next
  case (Cons a list)
  let ?n = "length xs"
  have v: "validChoices (?n - 1) (shuffleChoices rnd k (?n - 1))"
    by (rule shuffleChoices_valid[OF assms])
  have i: "?n - 1 < length [0..<?n]" using Cons by simp
  have "swapsFrom (?n - 1) (shuffleChoices rnd k (?n - 1)) (map ((!) xs) [0..<?n])
      = map ((!) xs) (swapsFrom (?n - 1) (shuffleChoices rnd k (?n - 1)) [0..<?n])"
    by (rule swapsFrom_map[OF v i])
  then show ?thesis by (simp add: shuffle_swaps map_nth)
qed

lemma box_volume: "n \<noteq> 0 \<Longrightarrow> (\<Prod>m = 0..<n - 1. 1 / real (n - m)) = 1 / fact n"
proof -
  have p: "(\<Prod>m = 0..<k. real (Suc k - m)) = fact (Suc k)" for k
  proof (induction k)
    case 0
    then show ?case by simp
  next
    case (Suc k)
    have "(\<Prod>m = 0..<Suc k. real (Suc (Suc k) - m))
        = real (Suc (Suc k) - 0) * (\<Prod>m = 0..<k. real (Suc (Suc k) - Suc m))"
      by (simp only: prod.atLeast0_lessThan_Suc_shift o_def)
    also have "\<dots> = real (Suc (Suc k)) * (\<Prod>m = 0..<k. real (Suc k - m))"
      by (simp only: diff_Suc_Suc diff_zero)
    also have "\<dots> = real (Suc (Suc k)) * fact (Suc k)" using Suc.IH by (simp only:)
    finally show ?case by simp
  qed
  assume "n \<noteq> 0"
  then obtain k where n: "n = Suc k" by (cases n) auto
  have "(\<Prod>m = 0..<n - 1. 1 / real (n - m)) = 1 / (\<Prod>m = 0..<n - 1. real (n - m))"
    by (simp add: prod_dividef)
  then show ?thesis using p[of k] n by simp
qed

lemma shuffle_last:
  assumes "unitDraws rnd" and "2 \<le> length xs"
  shows "fst (shuffle rnd (xs, k)) ! (length xs - 1) = xs ! nat \<lfloor>rnd k * real (length xs)\<rfloor>"
proof -
  obtain i where i: "length xs - 1 = Suc i" using assms(2) by (cases "length xs - 1") auto
  have n: "length xs = Suc i + 1" using i by simp
  let ?j = "nat \<lfloor>rnd k * real (Suc i + 1)\<rfloor>"
  have v: "validChoices (Suc i) (shuffleChoices rnd k (Suc i))"
    by (rule shuffleChoices_valid[OF assms(1)])
  then have t: "validChoices i (shuffleChoices rnd (k + 1) i)" and j: "?j \<le> Suc i"
    using validChoices_Suc[of i "shuffleChoices rnd k (Suc i)"]
    by (simp_all add: shuffleChoices_Suc)
  have "swapsFrom (Suc i) (?j # shuffleChoices rnd (k + 1) i) xs ! Suc i = xs ! ?j"
    by (rule swapsFrom_top[OF t j]) (use n in simp)
  then show ?thesis unfolding shuffle_swaps i by (simp add: shuffleChoices_Suc n)
qed

lemma not_in_take:
  assumes "distinct xs" and "m \<le> q" and "q < length xs"
  shows "xs ! q \<notin> set (take m xs)"
proof
  assume "xs ! q \<in> set (take m xs)"
  then obtain r where r: "r < length (take m xs)" and e: "take m xs ! r = xs ! q"
    by (auto simp: in_set_conv_nth)
  have rm: "r < m" and rl: "r < length xs" using r by simp_all
  then have "xs ! r = xs ! q" using e by simp
  then have "r = q" using assms(1,3) rl by (simp add: nth_eq_iff_index_eq)
  then show False using rm assms(2) by simp
qed

lemma unitDraws_zero: "unitDraws zeroDraws"
  by (simp add: unitDraws_def zeroDraws_def)

lemma zero_draws_drop_first:
  assumes "2 \<le> n" and "m < n"
  shows "0 \<notin> set (take m (fst (shuffle zeroDraws ([0..<n], k))))"
proof -
  let ?perm = "fst (shuffle zeroDraws ([0..<n], k))"
  have ms: "mset ?perm = mset [0..<n]" by (rule shuffle_mset[OF unitDraws_zero])
  have d: "distinct ?perm" using ms mset_eq_imp_distinct_iff distinct_upt by blast
  have l: "length ?perm = n" using ms mset_eq_length by fastforce
  have "?perm ! (n - 1) = [0..<n] ! nat \<lfloor>zeroDraws k * real (length [0..<n])\<rfloor>"
    using shuffle_last[OF unitDraws_zero, of "[0..<n]" k] assms(1) by simp
  then have z: "?perm ! (n - 1) = 0" using assms(1) by (simp add: zeroDraws_def)
  have "?perm ! (n - 1) \<notin> set (take m ?perm)"
    by (rule not_in_take[OF d]) (use assms l in simp_all)
  then show ?thesis using z by simp
qed

subsection \<open>The white image and the image with one white pixel\<close>

lemma white_scan_any:
  "length (scanPoints rnd white720 (settings whiteState) k) = 21600"
proof -
  have gt: "threshold (settings whiteState) < 255"
    by (simp add: whiteState_def initialState_def defaultSettings_def)
  have g: "gridCount (width white720) (spacing (settings whiteState)) = 180"
    "gridCount (height white720) (spacing (settings whiteState)) = 120"
    by (simp_all add: gridCount_def stepOf_def white720_def whiteState_def initialState_def
        defaultSettings_def)
  have "real (length (fst (soilScan rnd white720 (settings whiteState) k))) = real 21600"
    using uniform_scan(1)[OF white720_bright gt, of rnd k] unfolding g by simp
  then show ?thesis unfolding scanPoints_def by (simp only: of_nat_eq_iff)
qed

lemma previewBody_bright:
  assumes "brightAt sg x y = Some br" and "threshold st < br"
    and "0.3 < (br - threshold st) / orOne (255 - threshold st) * dotSize st"
  shows "length (previewBody sg st y x dots) = Suc (length dots)"
  using assms by (simp add: previewBody_def Let_def)

lemma uniform_preview:
  assumes u: "\<forall>x<width sg. \<forall>y<height sg. brightAt sg x y = Some br"
    and gt: "threshold st < br"
    and big: "0.3 < (br - threshold st) / orOne (255 - threshold st) * dotSize st"
  shows "real (length (previewScan sg st))
           = real (gridCount (width sg) (spacing st)) * real (gridCount (height sg) (spacing st))"
proof -
  let ?row = "\<lambda>y. forStep 0 (width sg) (spacing st) (previewBody sg st y)"
  have rowlen: "real (length (?row y t)) = real (length t) + 1 * real (gridCount (width sg) (spacing st))"
    if y: "y < height sg" for y and t :: "PreviewDot list"
  proof -
    have "real (length (?row y t))
        = real (length t) + 1 * real ((width sg - 0 + stepOf (spacing st) - 1) div stepOf (spacing st))"
    proof (rule forStep_sum)
      fix j and v :: "PreviewDot list"
      assume "j < width sg"
      then have "brightAt sg j y = Some br" using u y by blast
      then show "real (length (previewBody sg st y j v)) = real (length v) + 1"
        using previewBody_bright[OF _ gt big] by simp
    qed
    then show ?thesis by (simp add: gridCount_def)
  qed
  have "real (length (forStep 0 (height sg) (spacing st) ?row []))
      = real (length ([] :: PreviewDot list))
        + (1 * real (gridCount (width sg) (spacing st)))
          * real ((height sg - 0 + stepOf (spacing st) - 1) div stepOf (spacing st))"
    by (rule forStep_sum) (rule rowlen)
  then show ?thesis by (simp add: previewScan_def gridCount_def)
qed

lemma white_preview: "length (previewScan white720 defaultSettings) = 21600"
proof -
  have gt: "threshold defaultSettings < 255" by (simp add: defaultSettings_def)
  have big: "0.3 < (255 - threshold defaultSettings) / orOne (255 - threshold defaultSettings)
                     * dotSize defaultSettings"
    by (simp add: defaultSettings_def orOne_def)
  have g: "gridCount (width white720) (spacing defaultSettings) = 180"
    "gridCount (height white720) (spacing defaultSettings) = 120"
    by (simp_all add: gridCount_def stepOf_def white720_def defaultSettings_def)
  have "real (length (previewScan white720 defaultSettings)) = real 21600"
    using uniform_preview[OF white720_bright gt big] unfolding g by simp
  then show ?thesis by (simp only: of_nat_eq_iff)
qed

lemma integer_divisor:
  fixes thr :: real
  assumes "thr \<in> \<int>" and "thr \<le> 255"
  shows "orOne (255 - thr) = max 1 (255 - thr)"
proof -
  obtain z :: int where z: "thr = of_int z" using assms(1) by (rule Ints_cases)
  have "z \<le> 255" using assms(2) z by simp
  then have "z = 255 \<or> z \<le> 254" by linarith
  then show ?thesis
  proof
    assume "z = 255"
    then show ?thesis using z by (simp add: orOne_def)
  next
    assume "z \<le> 254"
    then have "thr \<le> 254" using z by simp
    then show ?thesis by (simp add: orOne_def)
  qed
qed

lemma forStep_invariant_from:
  assumes "P s" and "\<And>j t. i \<le> j \<Longrightarrow> j < bound \<Longrightarrow> P t \<Longrightarrow> P (body j t)"
  shows "P (forStep i bound sp body s)"
  using assms
proof (induction i bound sp body s rule: forStep.induct)
  case (1 i bound sp body s)
  show ?case
  proof (cases "i < bound")
    case True
    have "P (body i s)" by (rule "1.prems"(2)[OF le_refl True]) (rule "1.prems"(1))
    moreover have "\<And>j t. i + stepOf sp \<le> j \<Longrightarrow> j < bound \<Longrightarrow> P t \<Longrightarrow> P (body j t)"
      using "1.prems"(2) by simp
    ultimately have "P (forStep (i + stepOf sp) bound sp body (body i s))"
      using "1.IH"[OF True] by blast
    moreover have "forStep i bound sp body s = forStep (i + stepOf sp) bound sp body (body i s)"
      using True forStep.simps[of i bound sp body s] by simp
    ultimately show ?thesis by simp
  next
    case False
    then have "forStep i bound sp body s = s"
      using forStep.simps[of i bound sp body s] by simp
    then show ?thesis using "1.prems"(1) by simp
  qed
qed

lemma spark_first: "brightAt spark720 0 0 = Some 255"
  by (simp add: spark720_def brightAt_def pixelAt_def Let_def)

lemma spark_pixel:
  assumes "4 \<le> i" and "i < 1382400"
  shows "pixelAt (pixels spark720) i = Some 0"
proof -
  have "([255, 255, 255, 255] @ replicate 1382396 (0 :: 8 word)) ! i
      = replicate 1382396 (0 :: 8 word) ! (i - 4)"
  proof -
    have "\<not> i < length [255, 255, 255, 255 :: 8 word]" using assms(1) by simp
    then have "([255, 255, 255, 255] @ replicate 1382396 (0 :: 8 word)) ! i
        = replicate 1382396 (0 :: 8 word) ! (i - length [255, 255, 255, 255 :: 8 word])"
      by (simp only: nth_append if_False)
    moreover have "length [255, 255, 255, 255 :: 8 word] = 4" by simp
    ultimately show ?thesis by (simp only:)
  qed
  also have "\<dots> = 0" using assms by simp
  finally show ?thesis using assms(2) by (simp add: pixelAt_def spark720_def)
qed

lemma spark_rest:
  assumes "x < 720" and "y < 480" and "0 < x + y * 720"
  shows "brightAt spark720 x y = Some 0"
proof -
  let ?i = "(x + y * width spark720) * 4"
  have w: "width spark720 = 720" by (simp add: spark720_def)
  have "1 \<le> x + y * 720" using assms(3) by linarith
  then have "4 * 1 \<le> 4 * (x + y * 720)" by (rule mult_le_mono2)
  then have lo: "4 \<le> ?i" using w by (simp add: mult.commute)
  have hi: "?i + 2 < 1382400" using assms(1,2) w by simp
  have "pixelAt (pixels spark720) ?i = Some 0"
    and "pixelAt (pixels spark720) (?i + 1) = Some 0"
    and "pixelAt (pixels spark720) (?i + 2) = Some 0"
    using lo hi by (simp_all add: spark_pixel)
  then show ?thesis by (simp add: brightAt_def Let_def)
qed

lemma spark_scan:
  "soilScan rnd spark720 defaultSettings k =
     ([\<lparr> pt_x = - 360, pt_y = - 240, pt_z = rnd k * 6 - 3, pt_b = 255, pt_n = 1 \<rparr>], 1, k + 1)"
proof -
  let ?p = "\<lparr> pt_x = - 360, pt_y = - 240, pt_z = rnd k * 6 - 3, pt_b = 255, pt_n = 1 \<rparr>"
  let ?t = "([?p], 1 :: real, k + 1)"
  let ?body = "scanBody rnd spark720 (threshold defaultSettings)"
  let ?row = "\<lambda>y. forStep 0 (width spark720) (spacing defaultSettings) (?body y)"
  have w: "width spark720 = 720" and h: "height spark720 = 480" by (simp_all add: spark720_def)
  have sp: "stepOf (spacing defaultSettings) = 4" by (simp add: stepOf_def defaultSettings_def)
  have dark: "?body y x u = u" if "x < 720" "y < 480" "0 < x + y * 720" for x y u
    using spark_rest[OF that] by (simp add: scanBody_dark defaultSettings_def)
  have first: "?body 0 0 ([], 0, k) = ?t"
    using spark_first by (simp add: scanBody_def Let_def orOne_def defaultSettings_def w h)
  have row0: "?row 0 ([], 0, k) = ?t"
  proof -
    have "?row 0 ([], 0, k) = forStep (0 + 4) 720 (spacing defaultSettings) (?body 0) (?body 0 0 ([], 0, k))"
      using forStep.simps[of 0 720 "spacing defaultSettings" "?body 0" "([], 0, k)"] sp w by simp
    also have "\<dots> = forStep 4 720 (spacing defaultSettings) (?body 0) ?t" using first by simp
    also have "\<dots> = ?t"
    proof (rule forStep_invariant_from[where P = "\<lambda>u. u = ?t"])
      show "?t = ?t" ..
    next
      fix j :: nat and u assume "4 \<le> j" and "j < 720" and "u = ?t"
      then show "?body 0 j u = ?t" using dark[of j 0 u] by simp
    qed
    finally show ?thesis .
  qed
  have rows: "?row y ?t = ?t" if "4 \<le> y" "y < 480" for y
    unfolding w
  proof (rule forStep_invariant_from[where P = "\<lambda>u. u = ?t"])
    show "?t = ?t" ..
  next
    fix j :: nat and u assume "0 \<le> j" and "j < 720" and "u = ?t"
    then show "?body y j u = ?t" using dark[of j y u] that by simp
  qed
  have "soilScan rnd spark720 defaultSettings k
      = forStep (0 + 4) 480 (spacing defaultSettings) ?row (?row 0 ([], 0, k))"
    using forStep.simps[of 0 480 "spacing defaultSettings" ?row "([], 0, k)"] sp h
    by (simp add: soilScan_def)
  also have "\<dots> = forStep 4 480 (spacing defaultSettings) ?row ?t" using row0 by simp
  also have "\<dots> = ?t"
  proof (rule forStep_invariant_from[where P = "\<lambda>u. u = ?t"])
    show "?t = ?t" ..
  next
    fix j :: nat and u assume "4 \<le> j" and "j < 480" and "u = ?t"
    then show "?row j u = ?t" using rows[of j] by simp
  qed
  finally show ?thesis .
qed

section \<open>The claims\<close>

subsection \<open>C1: the average brightness\<close>

text \<open>
  C1. The claim is that \<open>avgBrightness\<close> is the mean of \<open>n\<close> over the final soil points,
  and 0.5 when there are none. The code divides \<open>brightnessSum\<close>, summed over the points
  of the scan, by the number of points after the cap and the fallback. On the all-black
  image the scan keeps nothing and the 120 synthetic points all have n = 1, yet
  \<open>avgBrightness\<close> is 0 (neither the mean 1 nor 0.5). On the all-white image with the
  default settings the scan keeps 21600 points with n = 1, 2000 remain, and
  \<open>avgBrightness\<close> is 21600 / 2000 = 10.8, where the mean is 1.
\<close>

theorem average_brightness_is_not_the_mean:
  "scanPoints halfDraws black720 (settings darkState) 0 = []
   \<and> length (soilPoints (fst (generateDigitalSoil halfDraws torus None darkState 0))) = 120
   \<and> sum_list (map pt_n (soilPoints (fst (generateDigitalSoil halfDraws torus None darkState 0))))
       / real (length (soilPoints (fst (generateDigitalSoil halfDraws torus None darkState 0)))) = 1
   \<and> avgBrightness (soilBehavior (fst (generateDigitalSoil halfDraws torus None darkState 0))) = 0
   \<and> length (scanPoints halfDraws white720 (settings whiteState) 0) = 21600
   \<and> length (soilPoints (fst (generateDigitalSoil halfDraws torus None whiteState 0))) = 2000
   \<and> sum_list (map pt_n (soilPoints (fst (generateDigitalSoil halfDraws torus None whiteState 0))))
       / real (length (soilPoints (fst (generateDigitalSoil halfDraws torus None whiteState 0)))) = 1
   \<and> avgBrightness (soilBehavior (fst (generateDigitalSoil halfDraws torus None whiteState 0))) = 54 / 5"
proof -
  have "scanPoints halfDraws black720 (settings darkState) 0 = []"
    using soilScan_dark[OF darkState_dark, of halfDraws 0] by (simp add: scanPoints_def)
  moreover have "sum_list (map pt_n (soilPoints (fst (generateDigitalSoil halfDraws torus None darkState 0)))) = 120"
    unfolding dark_generation(1) using synthetic_ones[of halfDraws 720 480 0 120] by simp
  moreover have "length (soilPoints (fst (generateDigitalSoil halfDraws torus None darkState 0))) = 120"
    unfolding dark_generation(1) by simp
  ultimately show ?thesis
    using dark_generation(2) white_scan(1)[of 0] white_generation by simp
qed

subsection \<open>C2: the spawner\<close>

text \<open>
  C2, as stated, fails in the count: the code floors twice,
  \<open>Math.floor(Math.floor(mapRange(length, 50, 1200, 30, 160)) * densityFactor)\<close>. For
  the 120 points of the all-black image and the default settings it spawns 44
  creatures, where \<open>floor(remap * densityFactor)\<close> is 45.
\<close>

theorem spawn_count_double_floor_counterexample:
  "length (soilPoints (fst (generateDigitalSoil halfDraws torus None darkState 0))) = 120
   \<and> length (creatures (fst (generateDigitalSoil halfDraws torus None darkState 0))) = 44
   \<and> max 0 (min \<lfloor>mapRange (real (length (soilPoints (fst (generateDigitalSoil halfDraws torus None darkState 0)))))
                     50 1200 30 160
                   * densityFactor (soilBehavior (fst (generateDigitalSoil halfDraws torus None darkState 0)))\<rfloor>
                 (int (length (soilPoints (fst (generateDigitalSoil halfDraws torus None darkState 0))))))
       = 45"
proof -
  have l: "length (soilPoints (fst (generateDigitalSoil halfDraws torus None darkState 0))) = 120"
    unfolding dark_generation(1) by simp
  show ?thesis unfolding l dark_generation(3) dark_generation(4)
    by (simp add: mapRange_def)
qed

text \<open>
  C2, amended in the count only. For draws in [0, 1), every soil point set and every
  behavior profile: the spawner spawns one creature for each index of a prefix of the
  Fisher-Yates permutation of \<open>0, ..., length - 1\<close>, at \<open>(p.x, p.z * 1.5, p.y)\<close> of the
  point \<open>p\<close> with that index; the indices are pairwise distinct and below the length,
  and the number of creatures is
  \<open>floor(floor(remap(pointCount, 50\<rightarrow>1200, 30\<rightarrow>160)) * densityFactor)\<close> clamped to
  \<open>[0, pointCount]\<close>, never more than the points there are.

  The permutation is uniform: it is the result of the exchanges for the partners that
  the loop computes from the draws; in round \<open>m\<close> the partner is \<open>j\<close> exactly when the
  draw lies in \<open>[j / (n - m), (j + 1) / (n - m))\<close>, one of \<open>n - m\<close> intervals of the same
  length; every admissible sequence of partners comes from some draws; and every
  permutation of the indices is the result of exactly one admissible sequence of
  partners. So each permutation is produced by the draws of one box of volume
  \<open>1 / n!\<close>, the same for all \<open>n!\<close> permutations.
\<close>

theorem spawner_selects_distinct_points:
  assumes "unitDraws rnd"
  shows "distinct (fst (spawnIndices rnd (length points) behavior k))
     \<and> set (fst (spawnIndices rnd (length points) behavior k)) \<subseteq> {0..<length points}
     \<and> mset (fst (shuffle rnd ([0..<length points], k))) = mset [0..<length points]
     \<and> fst (spawnIndices rnd (length points) behavior k)
          = take (length (fst (spawnIndices rnd (length points) behavior k)))
              (fst (shuffle rnd ([0..<length points], k)))
     \<and> map placeOf (fst (setupCreatures rnd points behavior species k))
          = map (spawnPlace points) (fst (spawnIndices rnd (length points) behavior k))
     \<and> length (fst (setupCreatures rnd points behavior species k))
          = length (fst (spawnIndices rnd (length points) behavior k))
     \<and> int (length (fst (setupCreatures rnd points behavior species k)))
          = max 0 (min \<lfloor>real_of_int \<lfloor>mapRange (real (length points)) 50 1200 30 160\<rfloor>
                          * densityFactor behavior\<rfloor>
                       (int (length points)))
     \<and> length (fst (setupCreatures rnd points behavior species k)) \<le> length points
     \<and> fst (shuffle rnd ([0..<length points], k))
          = swapsFrom (length points - 1) (shuffleChoices rnd k (length points - 1)) [0..<length points]
     \<and> validChoices (length points - 1) (shuffleChoices rnd k (length points - 1))
     \<and> (\<forall>m<length points - 1. \<forall>j.
           (shuffleChoices rnd k (length points - 1) ! m = j)
         = (real j / real (length points - 1 - m + 1) \<le> rnd (k + m)
            \<and> rnd (k + m) < real (j + 1) / real (length points - 1 - m + 1)))
     \<and> (\<forall>js. validChoices (length points - 1) js
           \<longrightarrow> (\<exists>rnd'. unitDraws rnd' \<and> shuffleChoices rnd' k (length points - 1) = js))
     \<and> (\<forall>p. mset p = mset [0..<length points]
           \<longrightarrow> (\<exists>!js. validChoices (length points - 1) js
                       \<and> swapsFrom (length points - 1) js [0..<length points] = p))
     \<and> (length points \<noteq> 0
           \<longrightarrow> (\<Prod>m = 0..<length points - 1. 1 / real (length points - m)) = 1 / fact (length points))"
proof -
  let ?n = "length points"
  let ?sel = "fst (spawnIndices rnd ?n behavior k)"
  let ?perm = "fst (shuffle rnd ([0..<?n], k))"
  note p = spawnIndices_props[OF assms, of ?n behavior k]
  have len: "int (length ?sel) = max 0 (min (plantCount ?n behavior) (int ?n))" by (rule p(3))
  have a: "mset ?perm = mset [0..<?n]" by (rule shuffle_mset[OF assms])
  have b: "?sel = take (length ?sel) ?perm"
    unfolding spawnIndices_fst by (simp add: take_min_length)
  have c: "length (fst (setupCreatures rnd points behavior species k)) = length ?sel"
    by (rule setupCreatures_length)
  have d: "int (length (fst (setupCreatures rnd points behavior species k)))
          = max 0 (min \<lfloor>real_of_int \<lfloor>mapRange (real ?n) 50 1200 30 160\<rfloor> * densityFactor behavior\<rfloor> (int ?n))"
    using c len by (simp add: plantCount_eq)
  have e: "length (fst (setupCreatures rnd points behavior species k)) \<le> ?n"
    using c len by linarith
  have f: "?perm = swapsFrom (?n - 1) (shuffleChoices rnd k (?n - 1)) [0..<?n]"
    using shuffle_swaps[of rnd "[0..<?n]" k] by simp
  have g: "validChoices (?n - 1) (shuffleChoices rnd k (?n - 1))"
    by (rule shuffleChoices_valid[OF assms])
  have h: "\<forall>m<?n - 1. \<forall>j.
           (shuffleChoices rnd k (?n - 1) ! m = j)
         = (real j / real (?n - 1 - m + 1) \<le> rnd (k + m)
            \<and> rnd (k + m) < real (j + 1) / real (?n - 1 - m + 1))"
  proof (intro allI impI)
    fix m j assume m: "m < ?n - 1"
    have "0 \<le> rnd (k + m)" using assms by (simp add: unitDraws_def)
    then show "(shuffleChoices rnd k (?n - 1) ! m = j)
         = (real j / real (?n - 1 - m + 1) \<le> rnd (k + m)
            \<and> rnd (k + m) < real (j + 1) / real (?n - 1 - m + 1))"
      by (rule choice_interval[OF m])
  qed
  have i: "\<forall>js. validChoices (?n - 1) js
           \<longrightarrow> (\<exists>rnd'. unitDraws rnd' \<and> shuffleChoices rnd' k (?n - 1) = js)"
    using choices_realised by blast
  have j: "\<forall>p. mset p = mset [0..<?n]
           \<longrightarrow> (\<exists>!js. validChoices (?n - 1) js \<and> swapsFrom (?n - 1) js [0..<?n] = p)"
    using permutation_unique_choices by blast
  have l: "?n \<noteq> 0 \<longrightarrow> (\<Prod>m = 0..<?n - 1. 1 / real (?n - m)) = 1 / fact ?n"
    using box_volume by blast
  show ?thesis
    using p(1) p(2) a b setupCreatures_places[of rnd points behavior species k] c d e f g h i j l
    by (intro conjI)
qed

theorem spawner_selects_distinct_points_witness:
  "distinct (fst (spawnIndices halfDraws (length darkPoints) (behaviorOf defaultSettings 0) 240))
   \<and> int (length (fst (setupCreatures halfDraws darkPoints (behaviorOf defaultSettings 0) torus 240))) = 44
   \<and> (\<exists>!js. validChoices 119 js \<and> swapsFrom 119 js [0..<120] = rev [0..<120])"
proof -
  have l: "length darkPoints = 120" by (simp add: darkPoints_def)
  have m: "mset (rev [0..<120]) = mset [0..<120]" by simp
  note t = spawner_selects_distinct_points[OF unitDraws_half, of darkPoints
      "behaviorOf defaultSettings 0" 240 torus]
  have "distinct (fst (spawnIndices halfDraws (length darkPoints) (behaviorOf defaultSettings 0) 240))"
    using t by blast
  moreover have "int (length (fst (setupCreatures halfDraws darkPoints (behaviorOf defaultSettings 0) torus 240))) = 44"
    using t dark_plantCount[of 0] unfolding l by (simp add: plantCount_eq)
  moreover have "\<exists>!js. validChoices 119 js \<and> swapsFrom 119 js [0..<120] = rev [0..<120]"
    using t m unfolding l by simp
  ultimately show ?thesis by blast
qed

subsection \<open>C3: an all-black image\<close>

text \<open>
  C3. When no grid pixel of the image has a luminance above the threshold, the scan
  keeps nothing and final generation produces exactly 120 points, all synthetic: each
  has n = 1, b = 255 and z = 0, and its x and y are \<open>(Math.random() - 0.5)\<close> times the
  image width and height, so within the bounds of the image, which is centred at 0.
\<close>

theorem dark_image_yields_120_synthetic_points:
  assumes "unitDraws rnd"
    and "sourceG s = Some sg"
    and "\<forall>x<width sg. \<forall>y<height sg. \<forall>br. brightAt sg x y = Some br \<longrightarrow> br \<le> threshold (settings s)"
    and "0 \<le> imgW s" and "0 \<le> imgH s"
  shows "scanPoints rnd sg (settings s) k = []
     \<and> soilPoints (fst (generateDigitalSoil rnd species p5frame s k))
          = map (\<lambda>i. synthetic rnd (imgW s) (imgH s) (k + 2 * i)) [0..<120]
     \<and> length (soilPoints (fst (generateDigitalSoil rnd species p5frame s k))) = 120
     \<and> (\<forall>p \<in> set (soilPoints (fst (generateDigitalSoil rnd species p5frame s k))).
           pt_n p = 1 \<and> pt_b p = 255 \<and> pt_z p = 0
           \<and> - (imgW s / 2) \<le> pt_x p \<and> pt_x p \<le> imgW s / 2
           \<and> - (imgH s / 2) \<le> pt_y p \<and> pt_y p \<le> imgH s / 2)"
proof -
  let ?st = "settings s"
  have scan: "soilScan rnd sg ?st k = ([], 0, k)" by (rule soilScan_dark[OF assms(3)])
  have sp: "scanPoints rnd sg ?st k = []" by (simp add: scanPoints_def scan)
  have cap: "cappedPoints rnd sg ?st k = ([], k)"
    by (simp add: cappedPoints_def scan capPoints_def shuffle_def sliceTo_def)
  have pts: "soilPoints (fst (generateDigitalSoil rnd species p5frame s k))
          = map (\<lambda>i. synthetic rnd (imgW s) (imgH s) (k + 2 * i)) [0..<120]"
    unfolding generate_points[OF assms(2)] finalPoints_eq cap by simp
  have each: "pt_n p = 1 \<and> pt_b p = 255 \<and> pt_z p = 0
           \<and> - (imgW s / 2) \<le> pt_x p \<and> pt_x p \<le> imgW s / 2
           \<and> - (imgH s / 2) \<le> pt_y p \<and> pt_y p \<le> imgH s / 2"
    if "p \<in> set (map (\<lambda>i. synthetic rnd (imgW s) (imgH s) (k + 2 * i)) [0..<120])" for p
  proof -
    from that have "p \<in> (\<lambda>i. synthetic rnd (imgW s) (imgH s) (k + 2 * i)) ` set [0..<120]"
      by (simp only: set_map)
    then obtain i where p: "p = synthetic rnd (imgW s) (imgH s) (k + 2 * i)" by blast
    have rx: "0 \<le> rnd (k + 2 * i) \<and> rnd (k + 2 * i) < 1"
      and ry: "0 \<le> rnd (k + 2 * i + 1) \<and> rnd (k + 2 * i + 1) < 1"
      using assms(1) by (simp_all add: unitDraws_def)
    show ?thesis unfolding p
      using centred_draw[of "rnd (k + 2 * i)" "imgW s"] centred_draw[of "rnd (k + 2 * i + 1)" "imgH s"]
        rx ry assms(4,5)
      by (simp add: synthetic_fields)
  qed
  show ?thesis unfolding pts using sp each by simp
qed

theorem dark_image_yields_120_synthetic_points_witness:
  "length (soilPoints (fst (generateDigitalSoil halfDraws torus None darkState 0))) = 120"
  using dark_image_yields_120_synthetic_points[where rnd = halfDraws and s = darkState
      and sg = black720 and species = torus and ?p5frame = None and k = 0,
      OF unitDraws_half _ darkState_dark]
  by (simp add: darkState_def initialState_def)

subsection \<open>C4: the sizes of the final point set and of the preview\<close>

text \<open>
  C4. The component writes \<open>maxPoints\<close> once, as 2000 (line 30), and every later
  change of the settings copies it, so the settings that generation receives have
  \<open>maxPoints = 2000\<close>. For every image and such settings, and draws in [0, 1): the final
  soil point set has at most \<open>maxPoints\<close> points. When the scan keeps more, the points
  are shuffled by Fisher-Yates and cut to the first \<open>maxPoints\<close>: the points kept are
  those at the first \<open>maxPoints\<close> indices of the permutation that the exchanges of the
  loop make of \<open>0, ..., n - 1\<close>, every admissible sequence of swap partners comes from
  some draws, and every permutation of the indices is the result of exactly one
  admissible sequence, so the cut is not a truncation of the scan order. The preview
  has at most 4000 dots: the first 4000 of the scan, in scan order, and no draw enters
  it.
\<close>

theorem final_and_preview_sizes:
  assumes "unitDraws rnd" and "sourceG s = Some sg" and "maxPoints (settings s) = 2000"
  shows "int (length (soilPoints (fst (generateDigitalSoil rnd species p5frame s k))))
           \<le> maxPoints (settings s)
     \<and> (int (length (scanPoints rnd sg (settings s) k)) \<le> maxPoints (settings s)
           \<longrightarrow> fst (cappedPoints rnd sg (settings s) k) = scanPoints rnd sg (settings s) k)
     \<and> (maxPoints (settings s) < int (length (scanPoints rnd sg (settings s) k))
           \<longrightarrow> fst (cappedPoints rnd sg (settings s) k)
                 = take (nat (maxPoints (settings s)))
                     (fst (shuffle rnd (scanPoints rnd sg (settings s) k,
                                        snd (snd (soilScan rnd sg (settings s) k)))))
               \<and> fst (cappedPoints rnd sg (settings s) k)
                 = map ((!) (scanPoints rnd sg (settings s) k))
                     (take (nat (maxPoints (settings s)))
                        (swapsFrom (length (scanPoints rnd sg (settings s) k) - 1)
                           (shuffleChoices rnd (snd (snd (soilScan rnd sg (settings s) k)))
                              (length (scanPoints rnd sg (settings s) k) - 1))
                           [0..<length (scanPoints rnd sg (settings s) k)]))
               \<and> int (length (fst (cappedPoints rnd sg (settings s) k))) = maxPoints (settings s)
               \<and> soilPoints (fst (generateDigitalSoil rnd species p5frame s k))
                 = fst (cappedPoints rnd sg (settings s) k))
     \<and> validChoices (length (scanPoints rnd sg (settings s) k) - 1)
          (shuffleChoices rnd (snd (snd (soilScan rnd sg (settings s) k)))
             (length (scanPoints rnd sg (settings s) k) - 1))
     \<and> (\<forall>js. validChoices (length (scanPoints rnd sg (settings s) k) - 1) js
           \<longrightarrow> (\<exists>rnd'. unitDraws rnd'
                  \<and> shuffleChoices rnd' (snd (snd (soilScan rnd sg (settings s) k)))
                       (length (scanPoints rnd sg (settings s) k) - 1) = js))
     \<and> (\<forall>p. mset p = mset [0..<length (scanPoints rnd sg (settings s) k)]
           \<longrightarrow> (\<exists>!js. validChoices (length (scanPoints rnd sg (settings s) k) - 1) js
                  \<and> swapsFrom (length (scanPoints rnd sg (settings s) k) - 1) js
                       [0..<length (scanPoints rnd sg (settings s) k)] = p))
     \<and> length (recomputePreviewDots (Some pg) pst old) \<le> 4000
     \<and> recomputePreviewDots (Some pg) pst old
          = (if length (pixels pg) = 0 then [] else take 4000 (previewScan pg pst))"
proof -
  let ?st = "settings s"
  let ?scan = "scanPoints rnd sg ?st k"
  let ?n = "length ?scan"
  let ?k1 = "snd (snd (soilScan rnd sg ?st k))"
  let ?capped = "fst (cappedPoints rnd sg ?st k)"
  let ?final = "soilPoints (fst (generateDigitalSoil rnd species p5frame s k))"
  note fl = final_length[OF assms(2), of rnd species p5frame k]
  have mx: "0 \<le> maxPoints ?st" using assms(3) by simp
  have cl: "length ?capped = min ?n (nat (maxPoints ?st))"
    by (rule cappedPoints_length[OF mx])
  have cle: "length ?capped \<le> 2000" using cl assms(3) by simp
  have a: "int (length ?final) \<le> maxPoints ?st"
  proof (cases "length ?capped < 50")
    case True
    then have "length ?final = length ?capped + 120" using fl by simp
    then show ?thesis using True assms(3) by simp
  next
    case False
    then have "length ?final = length ?capped" using fl by simp
    then show ?thesis using cle assms(3) by simp
  qed
  have b: "int ?n \<le> maxPoints ?st \<longrightarrow> ?capped = ?scan"
    by (simp add: cappedPoints_fst)
  have c: "maxPoints ?st < int ?n
        \<longrightarrow> ?capped = take (nat (maxPoints ?st)) (fst (shuffle rnd (?scan, ?k1)))
          \<and> ?capped = map ((!) ?scan) (take (nat (maxPoints ?st))
                (swapsFrom (?n - 1) (shuffleChoices rnd ?k1 (?n - 1)) [0..<?n]))
          \<and> int (length ?capped) = maxPoints ?st
          \<and> ?final = ?capped"
  proof
    assume big: "maxPoints ?st < int ?n"
    have c1: "?capped = take (nat (maxPoints ?st)) (fst (shuffle rnd (?scan, ?k1)))"
      using big mx by (simp add: cappedPoints_fst sliceTo_def)
    have "fst (shuffle rnd (?scan, ?k1))
        = map ((!) ?scan) (swapsFrom (?n - 1) (shuffleChoices rnd ?k1 (?n - 1)) [0..<?n])"
      using shuffle_by_indices[OF assms(1), of ?scan ?k1] shuffle_swaps[of rnd "[0..<?n]" ?k1]
      by simp
    then have c2: "?capped = map ((!) ?scan) (take (nat (maxPoints ?st))
                (swapsFrom (?n - 1) (shuffleChoices rnd ?k1 (?n - 1)) [0..<?n]))"
      using c1 by (simp add: take_map)
    have c3: "int (length ?capped) = maxPoints ?st" using cl big mx by simp
    then have "50 \<le> length ?capped" using assms(3) by simp
    then have c4: "?final = ?capped"
      using generate_points[OF assms(2), of rnd species p5frame k]
        finalPoints_eq[of rnd sg ?st "imgW s" "imgH s" k] by simp
    show "?capped = take (nat (maxPoints ?st)) (fst (shuffle rnd (?scan, ?k1)))
          \<and> ?capped = map ((!) ?scan) (take (nat (maxPoints ?st))
                (swapsFrom (?n - 1) (shuffleChoices rnd ?k1 (?n - 1)) [0..<?n]))
          \<and> int (length ?capped) = maxPoints ?st
          \<and> ?final = ?capped"
      using c1 c2 c3 c4 by (intro conjI)
  qed
  have d: "validChoices (?n - 1) (shuffleChoices rnd ?k1 (?n - 1))"
    by (rule shuffleChoices_valid[OF assms(1)])
  have e: "\<forall>js. validChoices (?n - 1) js
           \<longrightarrow> (\<exists>rnd'. unitDraws rnd' \<and> shuffleChoices rnd' ?k1 (?n - 1) = js)"
    using choices_realised by blast
  have f: "\<forall>p. mset p = mset [0..<?n]
           \<longrightarrow> (\<exists>!js. validChoices (?n - 1) js \<and> swapsFrom (?n - 1) js [0..<?n] = p)"
    using permutation_unique_choices by blast
  have g: "length (recomputePreviewDots (Some pg) pst old) \<le> 4000"
    by (simp add: preview_eq)
  show ?thesis using a b c d e f g preview_eq[of pg pst old] by (intro conjI)
qed

theorem final_and_preview_sizes_witness:
  "length (scanPoints zeroDraws white720 (settings whiteState) 0) = 21600
   \<and> length (soilPoints (fst (generateDigitalSoil zeroDraws torus None whiteState 0))) = 2000
   \<and> soilPoints (fst (generateDigitalSoil zeroDraws torus None whiteState 0))
       = map ((!) (scanPoints zeroDraws white720 (settings whiteState) 0))
           (take 2000 (fst (shuffle zeroDraws
              ([0..<21600], snd (snd (soilScan zeroDraws white720 (settings whiteState) 0))))))
   \<and> 0 \<notin> set (take 2000 (fst (shuffle zeroDraws
              ([0..<21600], snd (snd (soilScan zeroDraws white720 (settings whiteState) 0))))))
   \<and> length (previewScan white720 defaultSettings) = 21600
   \<and> length (recomputePreviewDots (Some white720) defaultSettings []) = 4000"
proof -
  let ?scan = "scanPoints zeroDraws white720 (settings whiteState) 0"
  let ?k1 = "snd (snd (soilScan zeroDraws white720 (settings whiteState) 0))"
  let ?G = "fst (generateDigitalSoil zeroDraws torus None whiteState 0)"
  have sg: "sourceG whiteState = Some white720" by (simp add: whiteState_def)
  have mx: "maxPoints (settings whiteState) = 2000"
    by (simp add: whiteState_def initialState_def defaultSettings_def)
  have n: "length ?scan = 21600" by (rule white_scan_any)
  have px: "length (pixels white720) \<noteq> 0" by (simp add: white720_def)
  note t = final_and_preview_sizes[OF unitDraws_zero sg mx, of torus None 0 white720 defaultSettings "[]"]
  have big: "maxPoints (settings whiteState) < int (length ?scan)" using n mx by simp
  have cap: "soilPoints ?G = fst (cappedPoints zeroDraws white720 (settings whiteState) 0)"
    and ix: "fst (cappedPoints zeroDraws white720 (settings whiteState) 0)
        = map ((!) ?scan) (take (nat (maxPoints (settings whiteState)))
            (swapsFrom (length ?scan - 1) (shuffleChoices zeroDraws ?k1 (length ?scan - 1))
               [0..<length ?scan]))"
    and cl: "int (length (fst (cappedPoints zeroDraws white720 (settings whiteState) 0)))
        = maxPoints (settings whiteState)"
    using t big by blast+
  have sw: "swapsFrom (length ?scan - 1) (shuffleChoices zeroDraws ?k1 (length ?scan - 1)) [0..<length ?scan]
      = fst (shuffle zeroDraws ([0..<21600], ?k1))"
    using shuffle_swaps[of zeroDraws "[0..<21600]" ?k1] unfolding n by simp
  have a: "length (soilPoints ?G) = 2000" using cap cl mx by simp
  have b: "soilPoints ?G = map ((!) ?scan) (take 2000 (fst (shuffle zeroDraws ([0..<21600], ?k1))))"
    using cap ix sw mx by simp
  have c: "0 \<notin> set (take 2000 (fst (shuffle zeroDraws ([0..<21600], ?k1))))"
    by (rule zero_draws_drop_first) simp_all
  have d: "length (recomputePreviewDots (Some white720) defaultSettings []) = 4000"
    using t px white_preview by simp
  show ?thesis using n a b c white_preview d by (intro conjI)
qed

subsection \<open>C5: what the scan retains\<close>

text \<open>
  C5. The threshold that the scans receive is an integer: it is 100 at the start, the
  result of \<open>Math.floor\<close> after an upload (line 486), or the \<open>parseInt\<close> of the slider
  (line 788). For every integer threshold in [0, 255], every point that the final scan
  retains and every dot that the preview retains stands at a grid pixel whose luminance
  \<open>br\<close> is strictly above the threshold; its normalized intensity is
  \<open>(br - threshold) / max(1, 255 - threshold)\<close>, which is what the code's divisor
  \<open>range || 1\<close> gives for an integer threshold; it lies in [0, 1]; and for a fixed
  threshold it is strictly increasing in the luminance. The size of a preview dot is
  the normalized intensity times the dot size.
\<close>

theorem retained_points_normalized:
  assumes "threshold st \<in> \<int>" and "0 \<le> threshold st" and "threshold st \<le> 255"
  shows "(\<forall>p \<in> set (scanPoints rnd sg st k).
            (\<exists>x<width sg. \<exists>y<height sg. brightAt sg x y = Some (pt_b p))
            \<and> threshold st < pt_b p
            \<and> pt_n p = (pt_b p - threshold st) / max 1 (255 - threshold st)
            \<and> 0 \<le> pt_n p \<and> pt_n p \<le> 1)
     \<and> (\<forall>p \<in> set (scanPoints rnd sg st k). \<forall>q \<in> set (scanPoints rnd sg st k).
            pt_b p < pt_b q \<longrightarrow> pt_n p < pt_n q)
     \<and> (\<forall>d \<in> set (recomputePreviewDots (Some sg) st old).
            \<exists>x<width sg. \<exists>y<height sg. \<exists>br.
              brightAt sg x y = Some br \<and> threshold st < br
              \<and> dot_size d = (br - threshold st) / max 1 (255 - threshold st) * dotSize st
              \<and> 0 \<le> (br - threshold st) / max 1 (255 - threshold st)
              \<and> (br - threshold st) / max 1 (255 - threshold st) \<le> 1)
     \<and> (\<forall>b1 b2. b1 < b2
            \<longrightarrow> (b1 - threshold st) / max 1 (255 - threshold st)
                < (b2 - threshold st) / max 1 (255 - threshold st))"
proof (intro conjI ballI impI allI)
  fix p assume "p \<in> set (scanPoints rnd sg st k)"
  then have s: "scanned sg (threshold st) p"
    using soilScan_scanned[of rnd sg st k] by (simp add: scanPoints_def)
  note f = scanned_facts[OF assms(2,3) s]
  have le: "threshold st \<le> 254" using f assms(1)
  proof -
    obtain z :: int where z: "threshold st = of_int z" using assms(1) by (rule Ints_cases)
    have "threshold st < 255" using f by linarith
    then have "z < 255" using z by simp
    then have "z \<le> 254" by simp
    then show ?thesis using z by simp
  qed
  show "\<exists>x<width sg. \<exists>y<height sg. brightAt sg x y = Some (pt_b p)" using f by blast
  show "threshold st < pt_b p" using f by blast
  show "pt_n p = (pt_b p - threshold st) / max 1 (255 - threshold st)" using f le by blast
  show "0 \<le> pt_n p" using f by linarith
  show "pt_n p \<le> 1" using f by blast
next
  fix p q
  assume p: "p \<in> set (scanPoints rnd sg st k)" and q: "q \<in> set (scanPoints rnd sg st k)"
    and lt: "pt_b p < pt_b q"
  have sp: "scanned sg (threshold st) p" and sq: "scanned sg (threshold st) q"
    using soilScan_scanned[of rnd sg st k] p q by (simp_all add: scanPoints_def)
  note fp = scanned_facts[OF assms(2,3) sp] and fq = scanned_facts[OF assms(2,3) sq]
  have "threshold st < 255" using fp by linarith
  then have "(pt_b p - threshold st) / (255 - threshold st) < (pt_b q - threshold st) / (255 - threshold st)"
    using lt by (rule normalized_strict_mono)
  then show "pt_n p < pt_n q" using fp fq by simp
next
  fix d assume "d \<in> set (recomputePreviewDots (Some sg) st old)"
  then have "previewed sg st d" using recompute_previewed by blast
  then obtain x y br where x: "x < width sg" and y: "y < height sg"
    and b: "brightAt sg x y = Some br" and gt: "threshold st < br"
    and sz: "dot_size d = (br - threshold st) / orOne (255 - threshold st) * dotSize st"
    unfolding previewed_def by blast
  have le: "br \<le> 255" using brightAt_range[OF b] by simp
  note nf = normalized_facts[OF assms(2) gt le]
  have dv: "orOne (255 - threshold st) = max 1 (255 - threshold st)"
    by (rule integer_divisor[OF assms(1,3)])
  have sz': "dot_size d = (br - threshold st) / max 1 (255 - threshold st) * dotSize st"
    using sz dv by simp
  have "0 \<le> (br - threshold st) / max 1 (255 - threshold st)"
    and "(br - threshold st) / max 1 (255 - threshold st) \<le> 1"
    using nf(1,2,3) dv by simp_all
  then show "\<exists>x<width sg. \<exists>y<height sg. \<exists>br.
              brightAt sg x y = Some br \<and> threshold st < br
              \<and> dot_size d = (br - threshold st) / max 1 (255 - threshold st) * dotSize st
              \<and> 0 \<le> (br - threshold st) / max 1 (255 - threshold st)
              \<and> (br - threshold st) / max 1 (255 - threshold st) \<le> 1"
    using x y b gt sz' by blast
next
  fix b1 b2 :: real assume "b1 < b2"
  then have "b1 - threshold st < b2 - threshold st" by simp
  moreover have "0 < max 1 (255 - threshold st)" by simp
  ultimately show "(b1 - threshold st) / max 1 (255 - threshold st)
                < (b2 - threshold st) / max 1 (255 - threshold st)"
    by (rule divide_strict_right_mono)
qed

theorem retained_points_normalized_witness:
  "threshold defaultSettings < pt_b (hd (scanPoints halfDraws white720 defaultSettings 0))
   \<and> pt_n (hd (scanPoints halfDraws white720 defaultSettings 0))
     = (pt_b (hd (scanPoints halfDraws white720 defaultSettings 0)) - threshold defaultSettings)
       / max 1 (255 - threshold defaultSettings)
   \<and> pt_n (hd (scanPoints halfDraws white720 defaultSettings 0)) \<le> 1"
proof -
  have st: "settings whiteState = defaultSettings" by (simp add: whiteState_def initialState_def)
  have "length (scanPoints halfDraws white720 defaultSettings 0) = 21600"
    using white_scan_any[of halfDraws 0] st by simp
  then have "scanPoints halfDraws white720 defaultSettings 0 \<noteq> []" by auto
  then have h: "hd (scanPoints halfDraws white720 defaultSettings 0)
      \<in> set (scanPoints halfDraws white720 defaultSettings 0)" by (rule hd_in_set)
  have i: "threshold defaultSettings \<in> \<int>" "0 \<le> threshold defaultSettings"
    "threshold defaultSettings \<le> 255"
    by (simp_all add: defaultSettings_def)
  show ?thesis
    using retained_points_normalized[OF i, where rnd = halfDraws and sg = white720 and k = 0
        and old = "[]"] h by blast
qed

subsection \<open>C6: the behavior factors are monotone\<close>

text \<open>
  C6. For spacing values in [2, 20] the density factor, \<open>mapRange(spacing, 2, 20, 1.3, 0.5)\<close>,
  is strictly decreasing in the spacing; for dot sizes in [2, 20] and a fixed threshold
  in [0, 255] the height factor and the thickness factor are strictly increasing in the
  dot size. (The two settings may differ in everything else, and the averages too.)
\<close>

theorem behavior_factors_strictly_monotone:
  "(2 \<le> spacing st1 \<and> spacing st1 < spacing st2 \<and> spacing st2 \<le> 20
      \<longrightarrow> densityFactor (behaviorOf st2 a2) < densityFactor (behaviorOf st1 a1))
   \<and> densityFactor (behaviorOf st1 a1) = mapRange (real_of_int (spacing st1)) 2 20 1.3 0.5
   \<and> (2 \<le> dotSize st1 \<and> dotSize st1 < dotSize st2 \<and> dotSize st2 \<le> 20
        \<and> 0 \<le> threshold st1 \<and> threshold st1 \<le> 255 \<and> threshold st2 = threshold st1
      \<longrightarrow> heightFactor (behaviorOf st1 a1) < heightFactor (behaviorOf st2 a2)
          \<and> thicknessFactor (behaviorOf st1 a1) < thicknessFactor (behaviorOf st2 a2))"
proof (intro conjI impI)
  assume "2 \<le> spacing st1 \<and> spacing st1 < spacing st2 \<and> spacing st2 \<le> 20"
  then have "real_of_int (spacing st1) < real_of_int (spacing st2)" by simp
  then have "mapRange (real_of_int (spacing st2)) 2 20 1.3 0.5 < mapRange (real_of_int (spacing st1)) 2 20 1.3 0.5"
    by (intro mapRange_strict_anti) simp_all
  then show "densityFactor (behaviorOf st2 a2) < densityFactor (behaviorOf st1 a1)"
    by (simp add: behaviorOf_def)
next
  show "densityFactor (behaviorOf st1 a1) = mapRange (real_of_int (spacing st1)) 2 20 1.3 0.5"
    by (simp add: behaviorOf_def)
next
  assume a: "2 \<le> dotSize st1 \<and> dotSize st1 < dotSize st2 \<and> dotSize st2 \<le> 20
        \<and> 0 \<le> threshold st1 \<and> threshold st1 \<le> 255 \<and> threshold st2 = threshold st1"
  have m: "mapRange (dotSize st1) 2 20 0.7 1.6 < mapRange (dotSize st2) 2 20 0.7 1.6"
    using a by (intro mapRange_strict_mono) simp_all
  have p: "0 < mapRange (threshold st1) 0 255 0.8 1.25"
    using a by (intro threshold_factor_pos) simp_all
  have "mapRange (dotSize st1) 2 20 0.7 1.6 * mapRange (threshold st1) 0 255 0.8 1.25
      < mapRange (dotSize st2) 2 20 0.7 1.6 * mapRange (threshold st1) 0 255 0.8 1.25"
    using m p by simp
  then show "heightFactor (behaviorOf st1 a1) < heightFactor (behaviorOf st2 a2)"
    using a by (simp add: behaviorOf_def)
next
  assume a: "2 \<le> dotSize st1 \<and> dotSize st1 < dotSize st2 \<and> dotSize st2 \<le> 20
        \<and> 0 \<le> threshold st1 \<and> threshold st1 \<le> 255 \<and> threshold st2 = threshold st1"
  have m: "mapRange (dotSize st1) 2 20 0.7 1.6 < mapRange (dotSize st2) 2 20 0.7 1.6"
    using a by (intro mapRange_strict_mono) simp_all
  then show "thicknessFactor (behaviorOf st1 a1) < thicknessFactor (behaviorOf st2 a2)"
    by (simp add: behaviorOf_def)
qed

theorem behavior_factors_strictly_monotone_witness:
  "densityFactor (behaviorOf (defaultSettings\<lparr> dotSize := 12, spacing := 10 \<rparr>) 0.5)
     < densityFactor (behaviorOf defaultSettings 0.5)
   \<and> heightFactor (behaviorOf defaultSettings 0.5)
     < heightFactor (behaviorOf (defaultSettings\<lparr> dotSize := 12, spacing := 10 \<rparr>) 0.5)
   \<and> thicknessFactor (behaviorOf defaultSettings 0.5)
     < thicknessFactor (behaviorOf (defaultSettings\<lparr> dotSize := 12, spacing := 10 \<rparr>) 0.5)"
  using behavior_factors_strictly_monotone[of defaultSettings
      "defaultSettings\<lparr> dotSize := 12, spacing := 10 \<rparr>" "0.5" "0.5"]
  by (simp add: defaultSettings_def)

subsection \<open>C7: the creature update\<close>

text \<open>
  C7. The update stores growth, wind, contraction and vertical influence, sets the
  phase clock to the tick count times 0.03 and touches nothing else; a second update
  with the same five arguments leaves the creature as the first one did.
\<close>

theorem update_stores_and_is_idempotent:
  "update c g w ct v frame =
     c\<lparr> growth := g, wind := w, contraction := ct, verticalInf := v, time := frame * 0.03 \<rparr>
   \<and> growth (update c g w ct v frame) = g
   \<and> wind (update c g w ct v frame) = w
   \<and> contraction (update c g w ct v frame) = ct
   \<and> verticalInf (update c g w ct v frame) = v
   \<and> time (update c g w ct v frame) = frame * 0.03
   \<and> baseX (update c g w ct v frame) = baseX c
   \<and> baseY (update c g w ct v frame) = baseY c
   \<and> baseZ (update c g w ct v frame) = baseZ c
   \<and> strength (update c g w ct v frame) = strength c
   \<and> heightBase (update c g w ct v frame) = heightBase c
   \<and> radiusBase (update c g w ct v frame) = radiusBase c
   \<and> thickness (update c g w ct v frame) = thickness c
   \<and> hueOffset (update c g w ct v frame) = hueOffset c
   \<and> organism (update c g w ct v frame) = organism c
   \<and> update (update c g w ct v frame) g w ct v frame = update c g w ct v frame"
  by (simp add: update_def)

subsection \<open>C8: interaction smoothing\<close>

text \<open>
  C8. While the pointer and the gesture stay as they are, the targets of wind, vertical
  influence and contraction stay constant over the ticks, and the signed distance of
  each smoothed value to its target is multiplied by a fixed factor every tick (0.95
  for wind, 0.9 for the other two): after \<open>n\<close> ticks it is that factor to the power
  \<open>n\<close> times the initial distance. So the distance never changes sign (no overshoot),
  and for every \<open>eps > 0\<close> all three values are within \<open>eps\<close> of their targets from
  some tick on.
\<close>

theorem smoothing_converges_without_overshoot:
  "state_wind (runTicks pw ph f n s) - windTargetOf pw s
      = 0.95 ^ n * (state_wind s - windTargetOf pw s)
   \<and> verticalInfluence (runTicks pw ph f n s) - verticalTargetOf ph s
      = 0.9 ^ n * (verticalInfluence s - verticalTargetOf ph s)
   \<and> state_contraction (runTicks pw ph f n s) - contractionTargetOf s
      = 0.9 ^ n * (state_contraction s - contractionTargetOf s)
   \<and> windTargetOf pw (runTicks pw ph f n s) = windTargetOf pw s
   \<and> verticalTargetOf ph (runTicks pw ph f n s) = verticalTargetOf ph s
   \<and> contractionTargetOf (runTicks pw ph f n s) = contractionTargetOf s
   \<and> state_wind (runTicks pw ph f (Suc n) s) - windTargetOf pw s
      = 0.95 * (state_wind (runTicks pw ph f n s) - windTargetOf pw s)
   \<and> verticalInfluence (runTicks pw ph f (Suc n) s) - verticalTargetOf ph s
      = 0.9 * (verticalInfluence (runTicks pw ph f n s) - verticalTargetOf ph s)
   \<and> state_contraction (runTicks pw ph f (Suc n) s) - contractionTargetOf s
      = 0.9 * (state_contraction (runTicks pw ph f n s) - contractionTargetOf s)
   \<and> 0 \<le> (state_wind (runTicks pw ph f n s) - windTargetOf pw s) * (state_wind s - windTargetOf pw s)
   \<and> 0 \<le> (verticalInfluence (runTicks pw ph f n s) - verticalTargetOf ph s)
            * (verticalInfluence s - verticalTargetOf ph s)
   \<and> 0 \<le> (state_contraction (runTicks pw ph f n s) - contractionTargetOf s)
            * (state_contraction s - contractionTargetOf s)
   \<and> (0 < eps \<longrightarrow>
        (\<exists>N. \<forall>m\<ge>N. \<bar>state_wind (runTicks pw ph f m s) - windTargetOf pw s\<bar> < eps
                   \<and> \<bar>verticalInfluence (runTicks pw ph f m s) - verticalTargetOf ph s\<bar> < eps
                   \<and> \<bar>state_contraction (runTicks pw ph f m s) - contractionTargetOf s\<bar> < eps))"
proof -
  note d = runTicks_distance[of pw ph f _ s]
  have closed: "state_wind (runTicks pw ph f n s) - windTargetOf pw s
      = 0.95 ^ n * (state_wind s - windTargetOf pw s)
   \<and> verticalInfluence (runTicks pw ph f n s) - verticalTargetOf ph s
      = 0.9 ^ n * (verticalInfluence s - verticalTargetOf ph s)
   \<and> state_contraction (runTicks pw ph f n s) - contractionTargetOf s
      = 0.9 ^ n * (state_contraction s - contractionTargetOf s)"
    by (rule d)
  have step: "state_wind (runTicks pw ph f (Suc n) s) - windTargetOf pw s
      = 0.95 * (state_wind (runTicks pw ph f n s) - windTargetOf pw s)
   \<and> verticalInfluence (runTicks pw ph f (Suc n) s) - verticalTargetOf ph s
      = 0.9 * (verticalInfluence (runTicks pw ph f n s) - verticalTargetOf ph s)
   \<and> state_contraction (runTicks pw ph f (Suc n) s) - contractionTargetOf s
      = 0.9 * (state_contraction (runTicks pw ph f n s) - contractionTargetOf s)"
    using d[of "Suc n"] d[of n] by simp
  have side: "0 \<le> (state_wind (runTicks pw ph f n s) - windTargetOf pw s) * (state_wind s - windTargetOf pw s)
   \<and> 0 \<le> (verticalInfluence (runTicks pw ph f n s) - verticalTargetOf ph s)
            * (verticalInfluence s - verticalTargetOf ph s)
   \<and> 0 \<le> (state_contraction (runTicks pw ph f n s) - contractionTargetOf s)
            * (state_contraction s - contractionTargetOf s)"
  proof -
    have c1: "state_wind (runTicks pw ph f n s) - windTargetOf pw s
        = 0.95 ^ n * (state_wind s - windTargetOf pw s)"
      and c2: "verticalInfluence (runTicks pw ph f n s) - verticalTargetOf ph s
        = 0.9 ^ n * (verticalInfluence s - verticalTargetOf ph s)"
      and c3: "state_contraction (runTicks pw ph f n s) - contractionTargetOf s
        = 0.9 ^ n * (state_contraction s - contractionTargetOf s)"
      using closed by blast+
    show ?thesis
      unfolding c1 c2 c3
      using same_side[of "0.95" n "state_wind s - windTargetOf pw s"]
        same_side[of "0.9" n "verticalInfluence s - verticalTargetOf ph s"]
        same_side[of "0.9" n "state_contraction s - contractionTargetOf s"]
      by simp
  qed
  have conv: "\<exists>N. \<forall>m\<ge>N. \<bar>state_wind (runTicks pw ph f m s) - windTargetOf pw s\<bar> < eps
                   \<and> \<bar>verticalInfluence (runTicks pw ph f m s) - verticalTargetOf ph s\<bar> < eps
                   \<and> \<bar>state_contraction (runTicks pw ph f m s) - contractionTargetOf s\<bar> < eps"
    if e: "0 < eps"
  proof -
    obtain N1 where n1: "\<forall>m\<ge>N1. \<bar>0.95 ^ m * (state_wind s - windTargetOf pw s)\<bar> < eps"
      using geometric_small[of "0.95" eps "state_wind s - windTargetOf pw s"] e by auto
    obtain N2 where n2: "\<forall>m\<ge>N2. \<bar>0.9 ^ m * (verticalInfluence s - verticalTargetOf ph s)\<bar> < eps"
      using geometric_small[of "0.9" eps "verticalInfluence s - verticalTargetOf ph s"] e by auto
    obtain N3 where n3: "\<forall>m\<ge>N3. \<bar>0.9 ^ m * (state_contraction s - contractionTargetOf s)\<bar> < eps"
      using geometric_small[of "0.9" eps "state_contraction s - contractionTargetOf s"] e by auto
    have "\<forall>m\<ge>max N1 (max N2 N3).
            \<bar>state_wind (runTicks pw ph f m s) - windTargetOf pw s\<bar> < eps
          \<and> \<bar>verticalInfluence (runTicks pw ph f m s) - verticalTargetOf ph s\<bar> < eps
          \<and> \<bar>state_contraction (runTicks pw ph f m s) - contractionTargetOf s\<bar> < eps"
      using n1 n2 n3 by (simp add: d)
    then show ?thesis by blast
  qed
  show ?thesis using closed step side runTicks_targets[of pw ph f n s] conv by blast
qed

theorem smoothing_converges_without_overshoot_witness:
  "state_wind (runTicks 900 600 0 2 pointerState) - 1 = 0.95 ^ 2 * (0 - 1)
   \<and> verticalInfluence (runTicks 900 600 0 2 pointerState) - 1 = 0.9 ^ 2 * (0 - 1)
   \<and> state_contraction (runTicks 900 600 0 2 pointerState) - 1 = 0.9 ^ 2 * (0 - 1)
   \<and> (\<exists>N. \<forall>m\<ge>N. \<bar>state_wind (runTicks 900 600 0 m pointerState) - 1\<bar> < 1 / 100
                \<and> \<bar>verticalInfluence (runTicks 900 600 0 m pointerState) - 1\<bar> < 1 / 100
                \<and> \<bar>state_contraction (runTicks 900 600 0 m pointerState) - 1\<bar> < 1 / 100)"
proof -
  have t: "windTargetOf 900 pointerState = 1" "verticalTargetOf 600 pointerState = 1"
    "contractionTargetOf pointerState = 1"
    by (simp_all add: windTargetOf_def verticalTargetOf_def contractionTargetOf_def
        pointerState_def initialState_def p5_map_def p5_constrain_def)
  have z: "state_wind pointerState = 0" "verticalInfluence pointerState = 0"
    "state_contraction pointerState = 0"
    by (simp_all add: pointerState_def initialState_def)
  show ?thesis
    using smoothing_converges_without_overshoot[of 900 600 0 2 pointerState "1 / 100"]
    unfolding t z by simp
qed

subsection \<open>C9: the preview scenario\<close>

text \<open>
  C9. For a 100 x 100 image in which every pixel has luminance 200, with threshold 100,
  spacing 10 and dot size 8, the preview is the 10 x 10 grid of 100 dots in scan order;
  the radius filter removes none, and each dot has size ((200 - 100) / 155) * 8, which
  is 5.16 to two decimals.
\<close>

theorem preview_scenario_100_dots:
  assumes "width sg = 100" and "height sg = 100"
    and "\<forall>x<100. \<forall>y<100. brightAt sg x y = Some 200"
    and "threshold st = 100" and "spacing st = 10" and "dotSize st = 8"
  shows "recomputePreviewDots (Some sg) st old =
           concat (map (\<lambda>y. map (\<lambda>x. \<lparr> dot_x = real x - 50, dot_y = real y - 50,
                                         dot_size = ((200 - 100) / 155) * 8 \<rparr>)
              [0, 10, 20, 30, 40, 50, 60, 70, 80, 90]) [0, 10, 20, 30, 40, 50, 60, 70, 80, 90])
         \<and> length (recomputePreviewDots (Some sg) st old) = 100
         \<and> (\<forall>d \<in> set (recomputePreviewDots (Some sg) st old).
               dot_size d = ((200 - 100) / 155) * 8 \<and> 0.3 < dot_size d
               \<and> \<bar>dot_size d - 5.16\<bar> < 0.005)"
proof -
  have b: "\<And>x y. x < 100 \<Longrightarrow> y < 100 \<Longrightarrow> brightAt sg x y = Some 200"
    using assms(3) by blast
  have "brightAt sg 0 0 = Some 200" using b by simp
  then have ne: "length (pixels sg) \<noteq> 0"
    by (auto simp: brightAt_def pixelAt_def Let_def split: option.splits if_splits)
  have scan: "previewScan sg st =
     concat (map (\<lambda>y. map (\<lambda>x. \<lparr> dot_x = real x - 50, dot_y = real y - 50, dot_size = 160 / 31 \<rparr>)
        [0, 10, 20, 30, 40, 50, 60, 70, 80, 90]) [0, 10, 20, 30, 40, 50, 60, 70, 80, 90])"
    by (rule preview_scan_200[OF assms(1,2) b assms(4,5,6)])
  have len: "length (previewScan sg st) = 100" unfolding scan by simp
  have res: "recomputePreviewDots (Some sg) st old = previewScan sg st"
    using ne len by (simp add: recomputePreviewDots_def Let_def)
  show ?thesis unfolding res
    apply (intro conjI)
    subgoal unfolding scan by simp
    subgoal by (rule len)
    subgoal unfolding scan by simp
    done
qed

theorem preview_scenario_100_dots_witness:
  "length (recomputePreviewDots (Some gray200) scenarioSettings []) = 100"
  using preview_scenario_100_dots[of gray200 scenarioSettings "[]", OF _ _ gray200_bright]
  by (simp add: gray200_def scenarioSettings_def)

subsection \<open>C10: the fallback appends\<close>

text \<open>
  C10. With \<open>maxPoints = 2000\<close>, the only value the component holds: when the scan
  retains at least 1 and fewer than 50 points, the 120 synthetic points are appended to
  the retained points, not substituted for them, so the final set is the retained
  points followed by the 120 and has exactly 120 more points than were retained. When
  50 or more points are retained, no synthetic point is added: the final set is the
  retained points, or 2000 of them, after the cap. The final set always has at least
  50 points.
\<close>

theorem fallback_appends_to_retained_points:
  assumes "sourceG s = Some sg" and "maxPoints (settings s) = 2000"
  shows "(1 \<le> length (scanPoints rnd sg (settings s) k)
          \<and> length (scanPoints rnd sg (settings s) k) < 50
            \<longrightarrow> soilPoints (fst (generateDigitalSoil rnd species p5frame s k))
                  = scanPoints rnd sg (settings s) k
                    @ map (\<lambda>i. synthetic rnd (imgW s) (imgH s)
                                 (snd (snd (soilScan rnd sg (settings s) k)) + 2 * i)) [0..<120]
                \<and> length (soilPoints (fst (generateDigitalSoil rnd species p5frame s k)))
                  = length (scanPoints rnd sg (settings s) k) + 120)
     \<and> (50 \<le> length (scanPoints rnd sg (settings s) k)
            \<longrightarrow> soilPoints (fst (generateDigitalSoil rnd species p5frame s k))
                  = fst (cappedPoints rnd sg (settings s) k)
                \<and> length (soilPoints (fst (generateDigitalSoil rnd species p5frame s k)))
                  = min (length (scanPoints rnd sg (settings s) k)) 2000
                \<and> (unitDraws rnd
                     \<longrightarrow> mset (soilPoints (fst (generateDigitalSoil rnd species p5frame s k)))
                         \<subseteq># mset (scanPoints rnd sg (settings s) k)))
     \<and> 50 \<le> length (soilPoints (fst (generateDigitalSoil rnd species p5frame s k)))"
proof -
  let ?st = "settings s"
  let ?scan = "scanPoints rnd sg ?st k"
  let ?k1 = "snd (snd (soilScan rnd sg ?st k))"
  let ?capped = "fst (cappedPoints rnd sg ?st k)"
  let ?final = "soilPoints (fst (generateDigitalSoil rnd species p5frame s k))"
  have mx: "0 \<le> maxPoints ?st" using assms(2) by simp
  have cl: "length ?capped = min (length ?scan) 2000"
    using cappedPoints_length[OF mx, of rnd sg k] assms(2) by simp
  have fin: "?final = (if length ?capped < 50
      then ?capped @ map (\<lambda>i. synthetic rnd (imgW s) (imgH s) (snd (cappedPoints rnd sg ?st k) + 2 * i)) [0..<120]
      else ?capped)"
    unfolding generate_points[OF assms(1)] by (rule finalPoints_eq)
  have a: "1 \<le> length ?scan \<and> length ?scan < 50
      \<longrightarrow> ?final = ?scan @ map (\<lambda>i. synthetic rnd (imgW s) (imgH s) (?k1 + 2 * i)) [0..<120]
        \<and> length ?final = length ?scan + 120"
  proof
    assume h: "1 \<le> length ?scan \<and> length ?scan < 50"
    then have small: "\<not> maxPoints ?st < int (length ?scan)" using assms(2) by simp
    have c: "cappedPoints rnd sg ?st k = (?scan, ?k1)"
      using small by (simp add: cappedPoints_def scanPoints_def capPoints_def)
    show "?final = ?scan @ map (\<lambda>i. synthetic rnd (imgW s) (imgH s) (?k1 + 2 * i)) [0..<120]
        \<and> length ?final = length ?scan + 120"
      using fin h unfolding c by simp
  qed
  have b: "50 \<le> length ?scan
      \<longrightarrow> ?final = ?capped \<and> length ?final = min (length ?scan) 2000
        \<and> (unitDraws rnd \<longrightarrow> mset ?final \<subseteq># mset ?scan)"
  proof
    assume h: "50 \<le> length ?scan"
    then have "50 \<le> length ?capped" using cl by simp
    then have f: "?final = ?capped" using fin by simp
    then show "?final = ?capped \<and> length ?final = min (length ?scan) 2000
        \<and> (unitDraws rnd \<longrightarrow> mset ?final \<subseteq># mset ?scan)"
      using cl cappedPoints_submset[of rnd sg ?st k] by simp
  qed
  have c: "50 \<le> length ?final" using fin by simp
  show ?thesis using a b c by (intro conjI)
qed

theorem fallback_appends_to_retained_points_witness:
  "length (scanPoints halfDraws spark720 (settings sparkState) 0) = 1
   \<and> length (soilPoints (fst (generateDigitalSoil halfDraws torus None sparkState 0))) = 121
   \<and> take 1 (soilPoints (fst (generateDigitalSoil halfDraws torus None sparkState 0)))
       = scanPoints halfDraws spark720 (settings sparkState) 0
   \<and> length (scanPoints halfDraws white720 (settings whiteState) 0) = 21600
   \<and> length (soilPoints (fst (generateDigitalSoil halfDraws torus None whiteState 0))) = 2000"
proof -
  have sg: "sourceG sparkState = Some spark720" by (simp add: sparkState_def)
  have st: "settings sparkState = defaultSettings" by (simp add: sparkState_def initialState_def)
  have mx: "maxPoints (settings sparkState) = 2000" by (simp add: st defaultSettings_def)
  have n: "length (scanPoints halfDraws spark720 (settings sparkState) 0) = 1"
    by (simp add: scanPoints_def st spark_scan)
  note t = fallback_appends_to_retained_points[OF sg mx, of halfDraws 0 torus None]
  have a: "length (soilPoints (fst (generateDigitalSoil halfDraws torus None sparkState 0))) = 121"
    and b: "take 1 (soilPoints (fst (generateDigitalSoil halfDraws torus None sparkState 0)))
       = scanPoints halfDraws spark720 (settings sparkState) 0"
    using t n by simp_all
  have wsg: "sourceG whiteState = Some white720" by (simp add: whiteState_def)
  have wmx: "maxPoints (settings whiteState) = 2000"
    by (simp add: whiteState_def initialState_def defaultSettings_def)
  have wn: "length (scanPoints halfDraws white720 (settings whiteState) 0) = 21600"
    by (rule white_scan_any)
  have "50 \<le> length (scanPoints halfDraws white720 (settings whiteState) 0)" using wn by simp
  then have "length (soilPoints (fst (generateDigitalSoil halfDraws torus None whiteState 0)))
      = min (length (scanPoints halfDraws white720 (settings whiteState) 0)) 2000"
    using fallback_appends_to_retained_points[OF wsg wmx, of halfDraws 0 torus None] by blast
  then have c: "length (soilPoints (fst (generateDigitalSoil halfDraws torus None whiteState 0))) = 2000"
    using wn by simp
  show ?thesis using n a b wn c by (intro conjI)
qed

end
